theory Spec2Isabelle
  imports Main "HOL-Library.Sublist"
begin

section \<open>Texts and characters\<close>

text \<open>
  A Python \<open>str\<close> is a sequence of code points. The model uses \<open>string\<close>, that is a list
  of \<open>char\<close>, read as the code points below 256; \<open>of_char\<close> is Python's \<open>ord\<close>.
  Every test the program makes on a single character is a test against an ASCII character
  or a comparison of \<open>ord(ch)\<close> with 32, so code points from 256 on would all take the
  "normal character" branch.
\<close>

abbreviation ESC :: char where "ESC \<equiv> CHR 0x1B"
abbreviation LF :: char where "LF \<equiv> CHR 0x0A"
abbreviation CR :: char where "CR \<equiv> CHR 0x0D"
abbreviation TAB :: char where "TAB \<equiv> CHR 0x09"
abbreviation BSL :: char where "BSL \<equiv> CHR 0x5C"
abbreviation DQ :: char where "DQ \<equiv> CHR 0x22"
abbreviation LBRACE :: char where "LBRACE \<equiv> CHR 0x7B"
abbreviation RBRACE :: char where "RBRACE \<equiv> CHR 0x7D"

definition ord :: "char \<Rightarrow> nat" where
  "ord c = of_char c"

definition in_class :: "nat \<Rightarrow> nat \<Rightarrow> char \<Rightarrow> bool" where
  \<comment> \<open>a regular-expression character class \<open>[lo-hi]\<close>\<close>
  "in_class lo hi c = (lo \<le> ord c \<and> ord c \<le> hi)"

section \<open>The sanitizer\<close>

text \<open>
  \<open>re.sub(r'\x1B[@-_][0-?]*[ -/]*[@-~]', '', block)\<close>. After the ESC character the
  pattern wants one character of \<open>[@-_]\<close>, then greedily characters of \<open>[0-?]\<close>, then
  greedily characters of \<open>[ -/]\<close>, then one character of \<open>[@-~]\<close>. The three classes
  \<open>[0-?]\<close>, \<open>[ -/]\<close> and \<open>[@-~]\<close> are pairwise disjoint, so giving back a character of a
  greedy run can never lead to a match: the greedy run decides.
  \<open>ansi_match\<close> is given the text after an ESC and returns the text after the match.
\<close>

definition ansi_match :: "string \<Rightarrow> string option" where
  "ansi_match cs =
     (case cs of
        [] \<Rightarrow> None
      | c # r0 \<Rightarrow>
          if in_class 0x40 0x5F c then
            (case dropWhile (in_class 0x20 0x2F) (dropWhile (in_class 0x30 0x3F) r0) of
               [] \<Rightarrow> None
             | f # rest \<Rightarrow> if in_class 0x40 0x7E f then Some rest else None)
          else None)"

lemma ansi_match_shorter: "ansi_match cs = Some rest \<Longrightarrow> length rest < length cs"
proof -
  assume a: "ansi_match cs = Some rest"
  then obtain c r0 where cs: "cs = c # r0"
    by (cases cs) (auto simp: ansi_match_def)
  let ?d = "dropWhile (in_class 0x20 0x2F) (dropWhile (in_class 0x30 0x3F) r0)"
  from a cs obtain f where d: "?d = f # rest"
    by (auto simp: ansi_match_def split: if_splits list.splits)
  have "length ?d \<le> length r0"
    by (meson length_dropWhile_le le_trans)
  with d cs show ?thesis by simp
qed

function strip_ansi :: "string \<Rightarrow> string" where
  "strip_ansi [] = []"
| "strip_ansi (c # cs) =
     (if c = ESC then
        (case ansi_match cs of
           Some rest \<Rightarrow> strip_ansi rest
         | None \<Rightarrow> c # strip_ansi cs)
      else c # strip_ansi cs)"
  by pat_completeness auto
termination
  by (relation "measure length") (auto dest: ansi_match_shorter)

text \<open>
  The \<open>for ch in block\<close> loop of \<open>sanitize_json_block\<close>, started with the flags
  \<open>in_string\<close> and \<open>escape_next\<close>; the value is the text appended to \<open>result\<close>.
\<close>

fun sanitize_loop :: "bool \<Rightarrow> bool \<Rightarrow> string \<Rightarrow> string" where
  "sanitize_loop in_string escape_next [] = []"
| "sanitize_loop in_string escape_next (ch # cs) =
     (if escape_next then ch # sanitize_loop in_string False cs
      else if ch = BSL then ch # sanitize_loop in_string True cs
      else if ch = DQ then ch # sanitize_loop (\<not> in_string) False cs
      else if in_string then
        (if ch = LF then BSL # CHR ''n'' # sanitize_loop in_string False cs
         else if ch = CR then BSL # CHR ''r'' # sanitize_loop in_string False cs
         else if ord ch < 32 then CHR '' '' # sanitize_loop in_string False cs
         else ch # sanitize_loop in_string False cs)
      else
        (if ch = CR then sanitize_loop in_string False cs
         else if ord ch < 32 \<and> ch \<notin> set [LF, TAB] then sanitize_loop in_string False cs
         else ch # sanitize_loop in_string False cs))"

text \<open>The flags \<open>(in_string, escape_next)\<close> the loop holds after it has read a text.\<close>

fun flags_after :: "bool \<Rightarrow> bool \<Rightarrow> string \<Rightarrow> bool \<times> bool" where
  "flags_after in_string escape_next [] = (in_string, escape_next)"
| "flags_after in_string escape_next (ch # cs) =
     (if escape_next then flags_after in_string False cs
      else if ch = BSL then flags_after in_string True cs
      else if ch = DQ then flags_after (\<not> in_string) False cs
      else flags_after in_string False cs)"

definition sanitize_json_block :: "string \<Rightarrow> string" where
  "sanitize_json_block block = sanitize_loop False False (strip_ansi block)"

section \<open>Properties of the sanitizer\<close>

lemma strip_ansi_no_esc: "ESC \<notin> set t \<Longrightarrow> strip_ansi t = t"
  by (induction t) auto

lemma sanitize_loop_no_esc: "ESC \<notin> set t \<Longrightarrow> ESC \<notin> set (sanitize_loop s e t)"
  by (induction t arbitrary: s e) auto

lemma sanitize_loop_idem: "sanitize_loop s e (sanitize_loop s e t) = sanitize_loop s e t"
  by (induction t arbitrary: s e) (auto simp: ord_def)

lemma sanitize_loop_append:
  "sanitize_loop s e (xs @ ys) =
     sanitize_loop s e xs @
       sanitize_loop (fst (flags_after s e xs)) (snd (flags_after s e xs)) ys"
  by (induction xs arbitrary: s e) auto

text \<open>
  C5. The sanitizer is idempotent on valid JSON text. JSON text holds no raw ESC
  character (inside a string every control character must be escaped, between tokens
  only space, tab, line feed and carriage return may stand), and that is all the
  proof needs: on every text without a raw ESC, sanitizing twice gives what sanitizing
  once gives.
\<close>

theorem sanitize_json_block_idempotent:
  "ESC \<notin> set t \<Longrightarrow>
     sanitize_json_block (sanitize_json_block t) = sanitize_json_block t"
proof -
  assume a: "ESC \<notin> set t"
  then have "ESC \<notin> set (sanitize_loop False False t)"
    by (rule sanitize_loop_no_esc)
  then have "strip_ansi (sanitize_loop False False t) = sanitize_loop False False t"
    by (rule strip_ansi_no_esc)
  with a show ?thesis
    by (simp add: sanitize_json_block_def strip_ansi_no_esc sanitize_loop_idem)
qed

theorem sanitize_json_block_idempotent_witness:
  "ESC \<notin> set [LBRACE, DQ, CHR ''a'', DQ, CHR '':'', CR, LF, DQ, CHR ''b'', BSL, CHR ''n'', DQ, RBRACE] \<and>
   sanitize_json_block (sanitize_json_block
       [LBRACE, DQ, CHR ''a'', DQ, CHR '':'', CR, LF, DQ, CHR ''b'', BSL, CHR ''n'', DQ, RBRACE]) =
     [LBRACE, DQ, CHR ''a'', DQ, CHR '':'', LF, DQ, CHR ''b'', BSL, CHR ''n'', DQ, RBRACE]"
  using sanitize_json_block_idempotent
    [of "[LBRACE, DQ, CHR ''a'', DQ, CHR '':'', CR, LF, DQ, CHR ''b'', BSL, CHR ''n'', DQ, RBRACE]"]
  by (simp add: sanitize_json_block_def ord_def)

text \<open>
  The loop at a control character (code point below 32) that is not the character after
  an unconsumed backslash: what it appends, and that the flags stay as they are.
\<close>

lemma sanitize_loop_control_character:
  assumes "flags_after False False pre = (in_string, False)"
    and "ord ch < 32"
  shows "sanitize_loop False False (pre @ ch # post) =
           sanitize_loop False False pre @
           (if in_string then
              (if ch = LF then [BSL, CHR ''n'']
               else if ch = CR then [BSL, CHR ''r'']
               else [CHR '' ''])
            else
              (if ch = CR then []
               else if ch = LF \<or> ch = TAB then [ch]
               else [])) @
           sanitize_loop in_string False post"
proof -
  from assms(2) have "ch \<noteq> BSL" "ch \<noteq> DQ"
    by (auto simp: ord_def)
  with assms show ?thesis
    by (simp add: sanitize_loop_append ord_def)
qed

text \<open>
  C6. A control character (code point below 32) of the text that is left once the ANSI
  sequences are removed, at a position that is not the character after an unconsumed
  backslash of that text, is treated as follows. Inside a string literal a line feed
  becomes the two characters backslash and \<open>n\<close>, a carriage return becomes backslash and
  \<open>r\<close>, every other one becomes one space. Outside a string literal a carriage return is
  dropped, line feed and tab are kept, every other one is dropped. What stands before
  and after it is sanitized as without it, with the same flags after it.
\<close>

theorem sanitize_json_block_control_character:
  assumes "strip_ansi block = pre @ ch # post"
    and "flags_after False False pre = (in_string, False)"
    and "ord ch < 32"
  shows "sanitize_json_block block =
           sanitize_loop False False pre @
           (if in_string then
              (if ch = LF then [BSL, CHR ''n'']
               else if ch = CR then [BSL, CHR ''r'']
               else [CHR '' ''])
            else
              (if ch = CR then []
               else if ch = LF \<or> ch = TAB then [ch]
               else [])) @
           sanitize_loop in_string False post"
  unfolding sanitize_json_block_def assms(1)
  by (rule sanitize_loop_control_character [OF assms(2,3)])

theorem sanitize_json_block_control_character_witness:
  "strip_ansi [DQ, CHR ''a'', ESC, CHR ''['', CHR ''0'', CHR ''m'', LF, CHR ''b'', DQ] =
     [DQ, CHR ''a''] @ LF # [CHR ''b'', DQ] \<and>
   flags_after False False [DQ, CHR ''a''] = (True, False) \<and> ord LF < 32 \<and>
   sanitize_json_block [DQ, CHR ''a'', ESC, CHR ''['', CHR ''0'', CHR ''m'', LF, CHR ''b'', DQ] =
     [DQ, CHR ''a'', BSL, CHR ''n'', CHR ''b'', DQ]"
proof -
  have s: "strip_ansi [DQ, CHR ''a'', ESC, CHR ''['', CHR ''0'', CHR ''m'', LF, CHR ''b'', DQ] =
     [DQ, CHR ''a''] @ LF # [CHR ''b'', DQ]"
    by code_simp
  have f: "flags_after False False [DQ, CHR ''a''] = (True, False)"
    by simp
  have o: "ord LF < 32"
    by (simp add: ord_def)
  from sanitize_json_block_control_character [OF s f o] s f o
  show ?thesis by (simp add: ord_def)
qed

text \<open>
  What the claim says a control character is rewritten to, inside and outside a string
  literal.
\<close>

definition claimed_control_output :: "bool \<Rightarrow> char \<Rightarrow> string" where
  "claimed_control_output in_string ch =
     (if in_string then
        (if ch = LF then [BSL, CHR ''n''] else if ch = CR then [BSL, CHR ''r''] else [CHR '' ''])
      else (if ch = CR then [] else if ch = LF \<or> ch = TAB then [ch] else []))"

text \<open>
  C6, as the claim words it, for every input text, fails: an ESC inside a string literal
  of the input, not after a backslash, that opens an ANSI sequence is removed with the
  sequence; no space stands for it.
\<close>

theorem sanitize_json_block_control_character_counterexample:
  "flags_after False False [DQ, CHR ''b''] = (True, False) \<and> ord ESC < 32 \<and>
   claimed_control_output True ESC = [CHR '' ''] \<and>
   sanitize_json_block ([DQ, CHR ''b''] @ ESC # [CHR ''['', CHR ''0'', CHR ''m'', CHR ''c'', DQ]) =
     [DQ, CHR ''b'', CHR ''c'', DQ] \<and>
   CHR '' '' \<notin> set (sanitize_json_block
       ([DQ, CHR ''b''] @ ESC # [CHR ''['', CHR ''0'', CHR ''m'', CHR ''c'', DQ]))"
  by code_simp

section \<open>The brace-balanced collector\<close>

definition isspace :: "char \<Rightarrow> bool" where
  \<comment> \<open>\<open>str.isspace\<close> on the code points below 256\<close>
  "isspace c = (ord c \<in> set [9, 10, 11, 12, 13, 28, 29, 30, 31, 32, 133, 160])"

definition lstrip :: "string \<Rightarrow> string" where
  "lstrip s = dropWhile isspace s"

definition startswith :: "string \<Rightarrow> string \<Rightarrow> bool" where
  "startswith s p = prefix p s"

fun join :: "string \<Rightarrow> string list \<Rightarrow> string" where
  "join sep [] = []"
| "join sep [x] = x"
| "join sep (x # y # ys) = x @ sep @ join sep (y # ys)"

text \<open>
  The first loop of \<open>collect_json_from_line_list\<close>: the first index \<open>j\<close> in
  \<open>range(start_index, n)\<close> whose line, stripped on the left, starts with a brace.
\<close>

definition find_start :: "string list \<Rightarrow> nat \<Rightarrow> nat option" where
  "find_start lines start_index =
     List.find (\<lambda>j. startswith (lstrip (lines ! j)) [LBRACE]) [start_index..<length lines]"

text \<open>
  The second loop, over the lines still to read, with the variables \<open>collected\<close>,
  \<open>brace_count\<close> and \<open>started\<close>. It returns \<open>raw_block\<close> when the count is back at zero
  after a brace was seen, and nothing when the lines run out.
\<close>

fun collect_loop :: "string list \<Rightarrow> string list \<Rightarrow> int \<Rightarrow> bool \<Rightarrow> string option" where
  "collect_loop [] collected brace_count started = None"
| "collect_loop (line # rest) collected brace_count started =
     (let collected' = collected @ [line];
          brace_count' = brace_count + int (count_list line LBRACE) - int (count_list line RBRACE);
          started' = (started \<or> LBRACE \<in> set line)
      in if started' \<and> brace_count' = 0 then Some (join [LF] collected')
         else collect_loop rest collected' brace_count' started')"

definition collect_block :: "string list \<Rightarrow> nat \<Rightarrow> string option" where
  \<comment> \<open>the \<open>raw_block\<close> that \<open>collect_json_from_line_list\<close> assembles, if it assembles one\<close>
  "collect_block lines start_index =
     (case find_start lines start_index of
        None \<Rightarrow> None
      | Some found_start \<Rightarrow>
          collect_loop (lstrip (lines ! found_start) # drop (Suc found_start) lines) [] 0 False)"

section \<open>Properties of the collector\<close>

lemma join_snoc:
  "join sep (xs @ [x]) = (if xs = [] then x else join sep xs @ sep @ x)"
  by (induction sep xs rule: join.induct) auto

lemma join_append_Cons:
  "join sep ((x # xs) @ ys) = x @ (if xs @ ys = [] then [] else sep @ join sep (xs @ ys))"
  by (cases "xs @ ys") auto

lemma count_list_append: "count_list (xs @ ys) c = count_list xs c + count_list ys c"
  by (induction xs) auto

lemma count_list_join:
  "c \<noteq> LF \<Longrightarrow> count_list (join [LF] xs) c = sum_list (map (\<lambda>l. count_list l c) xs)"
  by (induction "[LF]" xs rule: join.induct) (auto simp: count_list_append)

lemma set_join: "c \<noteq> LF \<Longrightarrow> c \<in> set (join [LF] xs) \<longleftrightarrow> (\<exists>l \<in> set xs. c \<in> set l)"
  by (induction "[LF]" xs rule: join.induct) auto

lemma collect_loop_Some:
  "collect_loop ls collected bc started = Some b \<Longrightarrow>
     \<exists>more. more \<noteq> [] \<and> prefix more ls \<and> b = join [LF] (collected @ more) \<and>
       bc + (\<Sum>l\<leftarrow>more. int (count_list l LBRACE) - int (count_list l RBRACE)) = 0 \<and>
       (started \<or> (\<exists>l \<in> set more. LBRACE \<in> set l))"
proof (induction ls arbitrary: collected bc started)
  case Nil
  then show ?case by simp
next
  case (Cons line rest)
  let ?bc = "bc + int (count_list line LBRACE) - int (count_list line RBRACE)"
  let ?st = "started \<or> LBRACE \<in> set line"
  show ?case
  proof (cases "?st \<and> ?bc = 0")
    case True
    with Cons.prems have "b = join [LF] (collected @ [line])"
      by (simp add: Let_def)
    with True show ?thesis
      by (intro exI [of _ "[line]"]) auto
  next
    case False
    with Cons.prems have "collect_loop rest (collected @ [line]) ?bc ?st = Some b"
      by (auto simp: Let_def split: if_splits)
    from Cons.IH [OF this] obtain more where m: "more \<noteq> []" "prefix more rest"
      "b = join [LF] ((collected @ [line]) @ more)"
      "?bc + (\<Sum>l\<leftarrow>more. int (count_list l LBRACE) - int (count_list l RBRACE)) = 0"
      "?st \<or> (\<exists>l \<in> set more. LBRACE \<in> set l)"
      by blast
    then show ?thesis
      by (intro exI [of _ "line # more"]) auto
  qed
qed

lemma sum_list_diff_int:
  "(\<Sum>l\<leftarrow>xs. int (f l) - int (g l)) = int (sum_list (map f xs)) - int (sum_list (map g xs))"
  by (induction xs) auto

lemma find_start_Some:
  "find_start lines start_index = Some j \<Longrightarrow>
     start_index \<le> j \<and> j < length lines \<and> startswith (lstrip (lines ! j)) [LBRACE]"
  by (auto simp: find_start_def find_Some_iff)

lemma collect_block_shape:
  assumes "collect_block lines start_index = Some block"
  shows "\<exists>j more. find_start lines start_index = Some j \<and>
           block = join [LF] (lstrip (lines ! j) # more) \<and> prefix more (drop (Suc j) lines) \<and>
           int (count_list block LBRACE) - int (count_list block RBRACE) = 0 \<and>
           LBRACE \<in> set block"
proof -
  from assms obtain j where j: "find_start lines start_index = Some j"
    and l: "collect_loop (lstrip (lines ! j) # drop (Suc j) lines) [] 0 False = Some block"
    by (auto simp: collect_block_def split: option.splits)
  from collect_loop_Some [OF l] obtain more where m: "more \<noteq> []"
    "prefix more (lstrip (lines ! j) # drop (Suc j) lines)" "block = join [LF] more"
    "(\<Sum>l\<leftarrow>more. int (count_list l LBRACE) - int (count_list l RBRACE)) = 0"
    "\<exists>l \<in> set more. LBRACE \<in> set l"
    by auto
  from m(1,2) obtain more' where more: "more = lstrip (lines ! j) # more'"
    "prefix more' (drop (Suc j) lines)"
    by (cases more) auto
  have "int (count_list block LBRACE) - int (count_list block RBRACE) = 0"
    using m(3,4) by (simp add: count_list_join sum_list_diff_int)
  moreover have "LBRACE \<in> set block"
    using m(3,5) by (simp add: set_join)
  ultimately show ?thesis
    using j more m(3) by blast
qed

lemma collect_block_first_char:
  assumes "collect_block lines start_index = Some block"
  shows "\<exists>rest. block = LBRACE # rest"
proof -
  from collect_block_shape [OF assms] obtain j more where
    j: "find_start lines start_index = Some j" and b: "block = join [LF] (lstrip (lines ! j) # more)"
    by blast
  from find_start_Some [OF j] obtain r where "lstrip (lines ! j) = LBRACE # r"
    by (auto simp: startswith_def prefix_def)
  with b show ?thesis
    using join_append_Cons [of "[LF]" "LBRACE # r" "[]" more] by (cases more) auto
qed

text \<open>
  C7. Whenever the collector assembles a candidate block, the number of opening braces
  of the block minus the number of its closing braces is zero, the first character of
  the block that is not whitespace is an opening brace (it is the very first character),
  and the block holds an opening brace.
\<close>

theorem collect_block_balanced:
  assumes "collect_block lines start_index = Some block"
  shows "int (count_list block LBRACE) - int (count_list block RBRACE) = 0 \<and>
         (\<exists>rest. dropWhile isspace block = LBRACE # rest \<and> block = LBRACE # rest) \<and>
         LBRACE \<in> set block"
proof -
  from collect_block_first_char [OF assms] obtain rest where r: "block = LBRACE # rest"
    by blast
  have "\<not> isspace LBRACE"
    by (simp add: isspace_def ord_def)
  with r have "dropWhile isspace block = LBRACE # rest"
    by simp
  with r collect_block_shape [OF assms] show ?thesis
    by blast
qed

theorem collect_block_balanced_witness:
  "collect_block [''INFO log'', [CHR '' '', LBRACE, DQ, CHR ''a'', DQ, CHR '':'', LBRACE],
                  [RBRACE, RBRACE], ''tail''] 0 =
     Some [LBRACE, DQ, CHR ''a'', DQ, CHR '':'', LBRACE, LF, RBRACE, RBRACE] \<and>
   int (count_list [LBRACE, DQ, CHR ''a'', DQ, CHR '':'', LBRACE, LF, RBRACE, RBRACE] LBRACE) -
     int (count_list [LBRACE, DQ, CHR ''a'', DQ, CHR '':'', LBRACE, LF, RBRACE, RBRACE] RBRACE) = 0"
proof -
  have c: "collect_block [''INFO log'', [CHR '' '', LBRACE, DQ, CHR ''a'', DQ, CHR '':'', LBRACE],
                  [RBRACE, RBRACE], ''tail''] 0 =
     Some [LBRACE, DQ, CHR ''a'', DQ, CHR '':'', LBRACE, LF, RBRACE, RBRACE]"
    by code_simp
  from collect_block_balanced [OF c] c show ?thesis
    by simp
qed

section \<open>Decoded JSON values and the Python operations on them\<close>

text \<open>
  A decoded JSON value as \<open>json.loads\<close> returns it: \<open>None\<close>, \<open>bool\<close>, \<open>int\<close>, \<open>float\<close>,
  \<open>str\<close>, \<open>list\<close> or \<open>dict\<close> (an association list in insertion order, looked up by
  key). Of a float the program only ever asks whether it is zero, so a float is kept as
  mantissa and binary exponent, or as one of the non-finite values.
\<close>

datatype pyfloat = Finite int int | Infinite bool | NaN

datatype json =
    JNull
  | JBool bool
  | JInt int
  | JFloat pyfloat
  | JStr string
  | JArr "json list"
  | JObj "(string \<times> json) list"

datatype py_error = TypeError | AttributeError | KeyError | IndexError | ValueError string

fun is_object :: "json \<Rightarrow> bool" where
  "is_object (JObj kvs) = True"
| "is_object _ = False"

fun truthy :: "json \<Rightarrow> bool" where
  "truthy JNull = False"
| "truthy (JBool b) = b"
| "truthy (JInt i) = (i \<noteq> 0)"
| "truthy (JFloat (Finite m e)) = (m \<noteq> 0)"
| "truthy (JFloat _) = True"
| "truthy (JStr s) = (s \<noteq> [])"
| "truthy (JArr xs) = (xs \<noteq> [])"
| "truthy (JObj kvs) = (kvs \<noteq> [])"

fun str_in :: "string \<Rightarrow> string \<Rightarrow> bool" where
  \<comment> \<open>\<open>sub in s\<close> on two strings\<close>
  "str_in sub [] = (sub = [])"
| "str_in sub (c # cs) = (prefix sub (c # cs) \<or> str_in sub cs)"

fun py_in :: "string \<Rightarrow> json \<Rightarrow> py_error + bool" where
  \<comment> \<open>\<open>k in obj\<close> for a string \<open>k\<close>\<close>
  "py_in k (JObj kvs) = Inr (k \<in> set (map fst kvs))"
| "py_in k (JArr xs) = Inr (JStr k \<in> set xs)"
| "py_in k (JStr s) = Inr (str_in k s)"
| "py_in k _ = Inl TypeError"

fun all_in :: "string list \<Rightarrow> json \<Rightarrow> py_error + bool" where
  \<comment> \<open>\<open>all(k in obj for k in require_keys)\<close>\<close>
  "all_in [] obj = Inr True"
| "all_in (k # ks) obj =
     (case py_in k obj of
        Inl e \<Rightarrow> Inl e
      | Inr False \<Rightarrow> Inr False
      | Inr True \<Rightarrow> all_in ks obj)"

definition lower_char :: "char \<Rightarrow> char" where
  "lower_char c =
     (if (65 \<le> ord c \<and> ord c \<le> 90) \<or> (192 \<le> ord c \<and> ord c \<le> 222 \<and> ord c \<noteq> 215)
      then char_of (ord c + 32) else c)"

definition lower :: "string \<Rightarrow> string" where
  "lower s = map lower_char s"

fun json_contains_carrier_groups :: "json \<Rightarrow> bool" where
  "json_contains_carrier_groups (JObj kvs) =
     (''carrierGroups'' \<in> set (map fst kvs) \<or>
      list_ex json_contains_carrier_groups (map snd kvs))"
| "json_contains_carrier_groups (JArr xs) = list_ex json_contains_carrier_groups xs"
| "json_contains_carrier_groups _ = False"

section \<open>The JSON extractor\<close>

text \<open>
  \<open>json.loads\<close> is the standard library's decoder, not code of this program: it is the
  parameter \<open>loads\<close>, with \<open>None\<close> for every exception it raises (the collector catches
  them all).
\<close>

definition collect_json_from_line_list ::
    "(string \<Rightarrow> json option) \<Rightarrow> string list \<Rightarrow> nat \<Rightarrow> json option" where
  "collect_json_from_line_list loads lines start_index =
     (case collect_block lines start_index of
        None \<Rightarrow> None
      | Some raw_block \<Rightarrow> loads (sanitize_json_block raw_block))"

text \<open>
  The object looked for at a matching line \<open>i\<close>: from the first brace of the line on when
  the line has one, from the next line on otherwise. The program has this code three
  times (in \<open>extract_json_after_marker\<close> and in the two generic fallbacks).
\<close>

definition collect_at :: "(string \<Rightarrow> json option) \<Rightarrow> string list \<Rightarrow> nat \<Rightarrow> json option" where
  "collect_at loads lines i =
     (let line = lines ! i in
      if LBRACE \<in> set line then
        collect_json_from_line_list loads
          (dropWhile (\<lambda>c. c \<noteq> LBRACE) line # drop (Suc i) lines) 0
      else collect_json_from_line_list loads lines (Suc i))"

fun extract_loop ::
    "(string \<Rightarrow> json option) \<Rightarrow> string list \<Rightarrow> string list \<Rightarrow> nat list \<Rightarrow> py_error + json option" where
  "extract_loop loads lines require_keys [] = Inr None"
| "extract_loop loads lines require_keys (i # indices) =
     (case collect_at loads lines i of
        None \<Rightarrow> extract_loop loads lines require_keys indices
      | Some obj \<Rightarrow>
          if require_keys \<noteq> [] then
            (case all_in require_keys obj of
               Inl e \<Rightarrow> Inl e
             | Inr False \<Rightarrow> extract_loop loads lines require_keys indices
             | Inr True \<Rightarrow> Inr (Some obj))
          else Inr (Some obj))"

definition marker_indices :: "string list \<Rightarrow> string \<Rightarrow> nat list" where
  "marker_indices lines marker = filter (\<lambda>i. str_in marker (lines ! i)) [0..<length lines]"

definition extract_json_after_marker ::
    "(string \<Rightarrow> json option) \<Rightarrow> string list \<Rightarrow> string \<Rightarrow> string list \<Rightarrow> bool \<Rightarrow> py_error + json option" where
  "extract_json_after_marker loads lines marker require_keys first =
     (let indices = marker_indices lines marker in
      if indices = [] then Inr None
      else extract_loop loads lines require_keys (if first then indices else rev indices))"

section \<open>The payload resolver\<close>

definition generic_request_line :: "string \<Rightarrow> bool" where
  "generic_request_line line =
     (str_in ''Converted'' line \<and> str_in ''request to'' line \<and>
      \<not> str_in ''shopify'' (lower line) \<and> \<not> str_in ''bigcommerce'' (lower line))"

fun generic_request_loop ::
    "(string \<Rightarrow> json option) \<Rightarrow> string list \<Rightarrow> nat list \<Rightarrow> py_error + json option" where
  "generic_request_loop loads lines [] = Inr None"
| "generic_request_loop loads lines (i # indices) =
     (if generic_request_line (lines ! i) then
        (case collect_at loads lines i of
           None \<Rightarrow> generic_request_loop loads lines indices
         | Some obj \<Rightarrow>
             if \<not> truthy obj then generic_request_loop loads lines indices
             else
               (case py_in ''cart'' obj of
                  Inl e \<Rightarrow> Inl e
                | Inr False \<Rightarrow> generic_request_loop loads lines indices
                | Inr True \<Rightarrow>
                    (case py_in ''destination'' obj of
                       Inl e \<Rightarrow> Inl e
                     | Inr False \<Rightarrow> generic_request_loop loads lines indices
                     | Inr True \<Rightarrow> Inr (Some obj))))
      else generic_request_loop loads lines indices)"

text \<open>
  The five request strategies in the order of the source. The \<open>k\<close>-th runs only while
  \<open>request_json\<close> is still \<open>None\<close>, so an exception of a later one cannot be seen once an
  earlier one has found a payload: \<open>first_found\<close> reads the results in that order.
\<close>

definition request_strategy :: "(string \<Rightarrow> json option) \<Rightarrow> string list \<Rightarrow> nat \<Rightarrow> py_error + json option" where
  "request_strategy loads lines k =
     (if k = 1 then
        extract_json_after_marker loads lines ''Converted shopify request to''
          [''cart'', ''destination''] True
      else if k = 2 then
        extract_json_after_marker loads lines ''Converted bigcommerce request to''
          [''cart'', ''destination''] True
      else if k = 3 then
        extract_json_after_marker loads lines ''REST Request after GraphQL Unmarshalling''
          [''cart''] True
      else if k = 4 then
        extract_json_after_marker loads lines ''[REQUEST]:'' [''cart''] True
      else generic_request_loop loads lines [0..<length lines])"

fun first_found :: "(nat \<Rightarrow> py_error + json option) \<Rightarrow> nat list \<Rightarrow> py_error + json option" where
  "first_found strategy [] = Inr None"
| "first_found strategy (k # ks) =
     (case strategy k of
        Inl e \<Rightarrow> Inl e
      | Inr (Some obj) \<Rightarrow> Inr (Some obj)
      | Inr None \<Rightarrow> first_found strategy ks)"

definition resolve_request :: "(string \<Rightarrow> json option) \<Rightarrow> string list \<Rightarrow> py_error + json" where
  "resolve_request loads lines =
     (case first_found (request_strategy loads lines) [1, 2, 3, 4, 5] of
        Inl e \<Rightarrow> Inl e
      | Inr None \<Rightarrow> Inl (ValueError ''Could not extract request JSON from this log.'')
      | Inr (Some request_json) \<Rightarrow> Inr request_json)"

text \<open>
  A marker strategy of the response side: the extraction, then
  \<open>if response_json and not json_contains_carrier_groups(response_json): response_json = None\<close>.
\<close>

definition response_marker_strategy ::
    "(string \<Rightarrow> json option) \<Rightarrow> string list \<Rightarrow> string \<Rightarrow> bool \<Rightarrow> py_error + json option" where
  "response_marker_strategy loads lines marker first =
     (case extract_json_after_marker loads lines marker [] first of
        Inl e \<Rightarrow> Inl e
      | Inr None \<Rightarrow> Inr None
      | Inr (Some response_json) \<Rightarrow>
          if truthy response_json \<and> \<not> json_contains_carrier_groups response_json
          then Inr None else Inr (Some response_json))"

definition generic_response_line :: "string \<Rightarrow> bool" where
  "generic_response_line line =
     (str_in ''Adapting the following rate response to'' line \<and>
      \<not> (str_in ''shopify response'' (lower line) \<or> str_in ''bigcommerce response'' (lower line)))"

fun generic_response_loop ::
    "(string \<Rightarrow> json option) \<Rightarrow> string list \<Rightarrow> nat list \<Rightarrow> py_error + json option" where
  "generic_response_loop loads lines [] = Inr None"
| "generic_response_loop loads lines (i # indices) =
     (if generic_response_line (lines ! i) then
        (case collect_at loads lines i of
           None \<Rightarrow> generic_response_loop loads lines indices
         | Some obj \<Rightarrow>
             if truthy obj \<and> json_contains_carrier_groups obj then Inr (Some obj)
             else generic_response_loop loads lines indices)
      else generic_response_loop loads lines indices)"

definition response_strategy :: "(string \<Rightarrow> json option) \<Rightarrow> string list \<Rightarrow> nat \<Rightarrow> py_error + json option" where
  "response_strategy loads lines k =
     (if k = 1 then
        response_marker_strategy loads lines
          ''Adapting the following rate response to shopify response'' False
      else if k = 2 then
        response_marker_strategy loads lines
          ''Adapting the following rate response to bigcommerce response'' False
      else if k = 3 then
        response_marker_strategy loads lines ''REST Response before GraphQL Marshalling'' True
      else if k = 4 then
        response_marker_strategy loads lines ''[RESPONSE]:'' True
      else generic_response_loop loads lines [0..<length lines])"

definition resolve_response :: "(string \<Rightarrow> json option) \<Rightarrow> string list \<Rightarrow> py_error + json" where
  "resolve_response loads lines =
     (case first_found (response_strategy loads lines) [1, 2, 3, 4, 5] of
        Inl e \<Rightarrow> Inl e
      | Inr None \<Rightarrow> Inl (ValueError ''Could not extract response JSON from this log.'')
      | Inr (Some response_json) \<Rightarrow> Inr response_json)"

text \<open>
  The two payloads \<open>parse_log_file\<close> hands to \<open>extract_fields\<close>, or the exception it
  raises; the text has been read and split into lines.
\<close>

definition resolve_payloads :: "(string \<Rightarrow> json option) \<Rightarrow> string list \<Rightarrow> py_error + json \<times> json" where
  "resolve_payloads loads lines =
     (case resolve_request loads lines of
        Inl e \<Rightarrow> Inl e
      | Inr request_json \<Rightarrow>
          (case resolve_response loads lines of
             Inl e \<Rightarrow> Inl e
           | Inr response_json \<Rightarrow> Inr (request_json, response_json)))"

section \<open>The decoder\<close>

text \<open>
  What the proofs below need of \<open>json.loads\<close>: a text that starts with an opening brace
  decodes to an object, when it decodes at all.
\<close>

definition decodes_objects :: "(string \<Rightarrow> json option) \<Rightarrow> bool" where
  "decodes_objects loads = (\<forall>s v. loads (LBRACE # s) = Some v \<longrightarrow> is_object v)"

text \<open>
  \<open>json.loads\<close> at the texts of the examples below. Every other text that the examples
  hand to the decoder is not JSON.
\<close>

definition sample_loads :: "string \<Rightarrow> json option" where
  \<open>sample_loads s =
     (if s = ''{"cart": {}, "destination": {}}'' then
        Some (JObj [(''cart'', JObj []), (''destination'', JObj [])])
      else if s = ''{"cart": {}}'' then Some (JObj [(''cart'', JObj [])])
      else if s = ''{"carrierGroups": []}'' then Some (JObj [(''carrierGroups'', JArr [])])
      else if s = ''{"a": 1}'' then Some (JObj [(''a'', JInt 1)])
      else if s = ''{}'' then Some (JObj [])
      else None)\<close>

section \<open>Properties of the extractor\<close>

lemma sanitize_json_block_brace:
  "sanitize_json_block (LBRACE # r) = LBRACE # sanitize_loop False False (strip_ansi r)"
  by (simp add: sanitize_json_block_def ord_def)

lemma collect_json_object:
  assumes "decodes_objects loads" "collect_json_from_line_list loads lines st = Some v"
  shows "is_object v"
proof -
  from assms(2) obtain raw where r: "collect_block lines st = Some raw"
    and l: "loads (sanitize_json_block raw) = Some v"
    by (auto simp: collect_json_from_line_list_def split: option.splits)
  from collect_block_first_char [OF r] obtain rest where "raw = LBRACE # rest"
    by blast
  with l assms(1) show ?thesis
    by (auto simp: sanitize_json_block_brace decodes_objects_def)
qed

lemma collect_at_object:
  "decodes_objects loads \<Longrightarrow> collect_at loads lines i = Some v \<Longrightarrow> is_object v"
  by (auto simp: collect_at_def Let_def split: if_splits dest: collect_json_object)

lemma all_in_object: "all_in ks (JObj kvs) = Inr (set ks \<subseteq> set (map fst kvs))"
  by (induction ks) (auto split: bool.splits)

lemma extract_loop_object:
  assumes "decodes_objects loads"
  shows "extract_loop loads lines ks idxs \<noteq> Inl e \<and>
         (extract_loop loads lines ks idxs = Inr (Some v) \<longrightarrow>
            (\<exists>kvs. v = JObj kvs \<and> set ks \<subseteq> set (map fst kvs)))"
proof (induction idxs)
  case Nil
  then show ?case by simp
next
  case (Cons i idxs)
  show ?case
  proof (cases "collect_at loads lines i")
    case None
    with Cons show ?thesis by simp
  next
    case (Some obj)
    with assms have "is_object obj"
      by (auto dest: collect_at_object)
    then obtain kvs where "obj = JObj kvs"
      by (cases obj) auto
    with Some Cons show ?thesis
      by (auto simp: all_in_object split: bool.splits)
  qed
qed

text \<open>
  C10. \<open>json.loads\<close> decodes a text that starts with an opening brace to a \<open>dict\<close> or
  raises (\<open>decodes_objects\<close>). The collector only decodes blocks that start with an
  opening brace, so every value it returns, and every value the extractor returns, is an
  object; the test for the required keys never raises and is a lookup of each key among
  the keys of that object.
\<close>

theorem collector_returns_object:
  assumes "decodes_objects loads"
  shows "(collect_json_from_line_list loads lines start_index = Some v \<longrightarrow> is_object v) \<and>
         (\<forall>e. extract_json_after_marker loads lines marker require_keys first \<noteq> Inl e) \<and>
         (extract_json_after_marker loads lines marker require_keys first = Inr (Some v) \<longrightarrow>
            (\<exists>kvs. v = JObj kvs \<and> set require_keys \<subseteq> set (map fst kvs)))"
  using assms collect_json_object [OF assms] extract_loop_object [OF assms]
  by (auto simp: extract_json_after_marker_def Let_def)

lemma sample_loads_objects: "decodes_objects sample_loads"
  by (auto simp: decodes_objects_def sample_loads_def split: if_splits)

theorem collector_returns_object_witness:
  \<open>decodes_objects sample_loads \<and>
   collect_json_from_line_list sample_loads [''INFO payload follows'', ''  {"a": 1}''] 0 =
     Some (JObj [(''a'', JInt 1)]) \<and>
   is_object (JObj [(''a'', JInt 1)])\<close>
proof -
  have c: \<open>collect_json_from_line_list sample_loads [''INFO payload follows'', ''  {"a": 1}''] 0 =
     Some (JObj [(''a'', JInt 1)])\<close>
    by code_simp
  from collector_returns_object [OF sample_loads_objects,
      of \<open>[''INFO payload follows'', ''  {"a": 1}'']\<close> 0 "JObj [(''a'', JInt 1)]"] c sample_loads_objects
  show ?thesis by simp
qed

section \<open>Properties of the request side of the resolver\<close>

text \<open>
  The line test and the required keys of the \<open>k\<close>-th request strategy, and what it means
  for a log to hold exactly one well-formed pair of that strategy: exactly one line passes
  the line test, and the object collected there is a JSON object with the required keys.
  A strategy is absent from a log when no line passes its line test.
\<close>

definition request_marker_line :: "nat \<Rightarrow> string \<Rightarrow> bool" where
  "request_marker_line k line =
     (if k = 1 then str_in ''Converted shopify request to'' line
      else if k = 2 then str_in ''Converted bigcommerce request to'' line
      else if k = 3 then str_in ''REST Request after GraphQL Unmarshalling'' line
      else if k = 4 then str_in ''[REQUEST]:'' line
      else generic_request_line line)"

definition request_required_keys :: "nat \<Rightarrow> string list" where
  "request_required_keys k = (if k = 3 \<or> k = 4 then [''cart''] else [''cart'', ''destination''])"

definition request_pair :: "(string \<Rightarrow> json option) \<Rightarrow> string list \<Rightarrow> nat \<Rightarrow> json \<Rightarrow> bool" where
  "request_pair loads lines k obj =
     ((\<exists>i<length lines. request_marker_line k (lines ! i) \<and>
          (\<forall>j<length lines. request_marker_line k (lines ! j) \<longrightarrow> j = i) \<and>
          collect_at loads lines i = Some obj) \<and>
      (\<exists>kvs. obj = JObj kvs \<and> set (request_required_keys k) \<subseteq> set (map fst kvs)))"

definition request_tier_absent :: "string list \<Rightarrow> nat \<Rightarrow> bool" where
  "request_tier_absent lines k = (\<forall>j<length lines. \<not> request_marker_line k (lines ! j))"

lemma distinct_singleton_set: "distinct xs \<Longrightarrow> set xs = {i} \<Longrightarrow> xs = [i]"
proof (cases xs)
  case Nil
  assume "set xs = {i}"
  with Nil show ?thesis by simp
next
  case (Cons a ys)
  assume d: "distinct xs" and s: "set xs = {i}"
  from s Cons have a: "a = i" by auto
  from s Cons have "set ys \<subseteq> {i}" by auto
  moreover from d Cons a have "i \<notin> set ys" by simp
  ultimately have "ys = []" by (cases ys) auto
  with Cons a show ?thesis by simp
qed

lemma filter_upt_unique:
  assumes "i < n" "P i" "\<forall>j<n. P j \<longrightarrow> j = i"
  shows "filter P [0..<n] = [i]"
proof -
  have d: "distinct (filter P [0..<n])" by simp
  have s: "set (filter P [0..<n]) = {i}"
  proof
    show "set (filter P [0..<n]) \<subseteq> {i}" using assms(3) by simp blast
    show "{i} \<subseteq> set (filter P [0..<n])" using assms(1,2) by simp
  qed
  from d s show ?thesis by (rule distinct_singleton_set)
qed

lemma filter_upt_none: "\<forall>j<n. \<not> P j \<Longrightarrow> filter P [0..<n] = []"
  by (auto simp: filter_empty_conv)

lemma extract_unique_marker:
  assumes "i < length lines" "str_in marker (lines ! i)"
    "\<forall>j<length lines. str_in marker (lines ! j) \<longrightarrow> j = i"
    "collect_at loads lines i = Some (JObj kvs)" "set ks \<subseteq> set (map fst kvs)"
  shows "extract_json_after_marker loads lines marker ks first = Inr (Some (JObj kvs))"
proof -
  have "marker_indices lines marker = [i]"
    unfolding marker_indices_def
    by (rule filter_upt_unique [where P = "\<lambda>i. str_in marker (lines ! i)", OF assms(1,2,3)])
  with assms(4,5) show ?thesis
    by (simp add: extract_json_after_marker_def Let_def all_in_object)
qed

lemma extract_no_marker:
  "\<forall>j<length lines. \<not> str_in marker (lines ! j) \<Longrightarrow>
     extract_json_after_marker loads lines marker ks first = Inr None"
  by (simp add: extract_json_after_marker_def marker_indices_def filter_upt_none)

lemma generic_request_loop_none:
  "\<forall>j \<in> set idxs. \<not> generic_request_line (lines ! j) \<Longrightarrow>
     generic_request_loop loads lines idxs = Inr None"
  by (induction idxs) simp_all

lemma generic_request_loop_unique:
  assumes "i \<in> set idxs" "generic_request_line (lines ! i)"
    "\<And>j. j \<in> set idxs \<Longrightarrow> generic_request_line (lines ! j) \<Longrightarrow> j = i"
    "collect_at loads lines i = Some (JObj kvs)"
    "''cart'' \<in> set (map fst kvs)" "''destination'' \<in> set (map fst kvs)"
  shows "generic_request_loop loads lines idxs = Inr (Some (JObj kvs))"
  using assms(1,3)
proof (induction idxs)
  case Nil
  then show ?case by simp
next
  case (Cons a idxs)
  show ?case
  proof (cases "a = i")
    case True
    from assms(5) have "kvs \<noteq> []" by auto
    with True assms(2,4,5,6) show ?thesis by simp
  next
    case False
    have "\<not> generic_request_line (lines ! a)"
    proof
      assume "generic_request_line (lines ! a)"
      then have "a = i" by (intro Cons.prems(2)) simp_all
      with False show False by simp
    qed
    moreover from False Cons.prems(1) have "i \<in> set idxs" by simp
    then have "generic_request_loop loads lines idxs = Inr (Some (JObj kvs))"
      by (rule Cons.IH) (simp add: Cons.prems(2))
    ultimately show ?thesis by simp
  qed
qed

lemma request_strategy_absent:
  assumes "request_tier_absent lines k"
  shows "request_strategy loads lines k = Inr None"
proof -
  have n: "\<forall>j<length lines. \<not> request_marker_line k (lines ! j)"
    using assms by (simp add: request_tier_absent_def)
  show ?thesis
  proof (cases "k = 1 \<or> k = 2 \<or> k = 3 \<or> k = 4")
    case True
    then consider "k = 1" | "k = 2" | "k = 3" | "k = 4" by blast
    then show ?thesis
    proof cases
      case 1
      with n show ?thesis
        by (simp add: request_strategy_def request_marker_line_def extract_no_marker)
    next
      case 2
      with n show ?thesis
        by (simp add: request_strategy_def request_marker_line_def extract_no_marker)
    next
      case 3
      with n show ?thesis
        by (simp add: request_strategy_def request_marker_line_def extract_no_marker)
    next
      case 4
      with n show ?thesis
        by (simp add: request_strategy_def request_marker_line_def extract_no_marker)
    qed
  next
    case False
    with n have "\<forall>j \<in> set [0..<length lines]. \<not> generic_request_line (lines ! j)"
      by (simp add: request_marker_line_def)
    then have "generic_request_loop loads lines [0..<length lines] = Inr None"
      by (rule generic_request_loop_none)
    with False show ?thesis
      by (simp add: request_strategy_def)
  qed
qed

lemma request_marker_line_simps:
  "request_marker_line 1 = str_in ''Converted shopify request to''"
  "request_marker_line 2 = str_in ''Converted bigcommerce request to''"
  "request_marker_line 3 = str_in ''REST Request after GraphQL Unmarshalling''"
  "request_marker_line 4 = str_in ''[REQUEST]:''"
  by (rule ext, simp add: request_marker_line_def)+

lemma request_required_keys_simps:
  "request_required_keys 1 = [''cart'', ''destination'']"
  "request_required_keys 2 = [''cart'', ''destination'']"
  "request_required_keys 3 = [''cart'']"
  "request_required_keys 4 = [''cart'']"
  by (simp_all add: request_required_keys_def)

lemma request_strategy_pair:
  assumes "request_pair loads lines k obj"
  shows "request_strategy loads lines k = Inr (Some obj)"
proof -
  from assms obtain i kvs where i: "i < length lines" and m: "request_marker_line k (lines ! i)"
    and u: "\<forall>j<length lines. request_marker_line k (lines ! j) \<longrightarrow> j = i"
    and c: "collect_at loads lines i = Some (JObj kvs)"
    and o: "obj = JObj kvs" and r: "set (request_required_keys k) \<subseteq> set (map fst kvs)"
    unfolding request_pair_def by blast
  show ?thesis
  proof (cases "k = 1 \<or> k = 2 \<or> k = 3 \<or> k = 4")
    case True
    then consider "k = 1" | "k = 2" | "k = 3" | "k = 4" by blast
    then show ?thesis
    proof cases
      case 1
      note e = extract_unique_marker [OF i m [unfolded 1 request_marker_line_simps]
          u [unfolded 1 request_marker_line_simps] c r [unfolded 1 request_required_keys_simps]]
      show ?thesis unfolding o 1 by (simp add: request_strategy_def e)
    next
      case 2
      note e = extract_unique_marker [OF i m [unfolded 2 request_marker_line_simps]
          u [unfolded 2 request_marker_line_simps] c r [unfolded 2 request_required_keys_simps]]
      show ?thesis unfolding o 2 by (simp add: request_strategy_def e)
    next
      case 3
      note e = extract_unique_marker [OF i m [unfolded 3 request_marker_line_simps]
          u [unfolded 3 request_marker_line_simps] c r [unfolded 3 request_required_keys_simps]]
      show ?thesis unfolding o 3 by (simp add: request_strategy_def e)
    next
      case 4
      note e = extract_unique_marker [OF i m [unfolded 4 request_marker_line_simps]
          u [unfolded 4 request_marker_line_simps] c r [unfolded 4 request_required_keys_simps]]
      show ?thesis unfolding o 4 by (simp add: request_strategy_def e)
    qed
  next
    case False
    have g: "generic_request_line (lines ! i)"
      using m False by (simp add: request_marker_line_def)
    have k: "''cart'' \<in> set (map fst kvs)" "''destination'' \<in> set (map fst kvs)"
      using r False by (simp_all add: request_required_keys_def)
    have "generic_request_loop loads lines [0..<length lines] = Inr (Some (JObj kvs))"
    proof (rule generic_request_loop_unique [where i = i, OF _ g _ c k])
      show "i \<in> set [0..<length lines]" using i by simp
    next
      fix j assume "j \<in> set [0..<length lines]" "generic_request_line (lines ! j)"
      then have "j < length lines" "request_marker_line k (lines ! j)"
        using False by (simp_all add: request_marker_line_def)
      with u show "j = i" by blast
    qed
    with False o show ?thesis
      by (simp add: request_strategy_def)
  qed
qed

text \<open>
  C1, as the code has it. Let exactly one line pass the line test of request strategy
  \<open>k\<close>, let the block that the extractor collects at that line (from the first opening
  brace of the line, or from the next line that starts with a brace when the line has
  none, up to lexical brace balance) decode to an object with the keys the strategy
  requires, and let no line pass the line test of a strategy of higher priority. Then
  the resolver returns that object, whatever else the log holds: lines of lower-priority
  strategies, before or after that line, change nothing.
\<close>

theorem resolve_request_highest_priority:
  assumes "1 \<le> k" "k \<le> 5" "request_pair loads lines k obj"
    and "\<forall>k'. 1 \<le> k' \<and> k' < k \<longrightarrow> request_tier_absent lines k'"
  shows "resolve_request loads lines = Inr obj"
proof -
  have p: "request_strategy loads lines k = Inr (Some obj)"
    using assms(3) by (rule request_strategy_pair)
  have a: "\<And>k'. 1 \<le> k' \<Longrightarrow> k' < k \<Longrightarrow> request_strategy loads lines k' = Inr None"
    using assms(4) by (simp add: request_strategy_absent)
  from assms(1,2) consider "k = 1" | "k = 2" | "k = 3" | "k = 4" | "k = 5"
    by linarith
  then show ?thesis
  proof cases
    case 1
    with p show ?thesis by (simp add: resolve_request_def)
  next
    case 2
    with p a [of 1] show ?thesis by (simp add: resolve_request_def)
  next
    case 3
    with p a [of 1] a [of 2] show ?thesis by (simp add: resolve_request_def)
  next
    case 4
    with p a [of 1] a [of 2] a [of 3] show ?thesis by (simp add: resolve_request_def)
  next
    case 5
    with p a [of 1] a [of 2] a [of 3] a [of 4] show ?thesis by (simp add: resolve_request_def)
  qed
qed

theorem resolve_request_highest_priority_witness:
  \<open>request_pair sample_loads
      [''[REQUEST]: {"cart": {}}'',
       ''Converted bigcommerce request to {"cart": {}, "destination": {}}''] 2
      (JObj [(''cart'', JObj []), (''destination'', JObj [])]) \<and>
   request_tier_absent
      [''[REQUEST]: {"cart": {}}'',
       ''Converted bigcommerce request to {"cart": {}, "destination": {}}''] 1 \<and>
   resolve_request sample_loads
      [''[REQUEST]: {"cart": {}}'',
       ''Converted bigcommerce request to {"cart": {}, "destination": {}}''] =
     Inr (JObj [(''cart'', JObj []), (''destination'', JObj [])])\<close>
proof -
  let ?lines = \<open>[''[REQUEST]: {"cart": {}}'',
       ''Converted bigcommerce request to {"cart": {}, "destination": {}}'']\<close>
  let ?obj = "JObj [(''cart'', JObj []), (''destination'', JObj [])]"
  have c: "collect_at sample_loads ?lines 1 = Some ?obj"
    by code_simp
  have m0: "\<not> request_marker_line 2 (?lines ! 0)"
    by code_simp
  have m1: "request_marker_line 2 (?lines ! 1)"
    by code_simp
  have p: "request_pair sample_loads ?lines 2 ?obj"
    unfolding request_pair_def
  proof (intro conjI exI [of _ 1] exI [of _ "[(''cart'', JObj []), (''destination'', JObj [])]"])
    show "1 < length ?lines" by simp
    show "request_marker_line 2 (?lines ! 1)" by (rule m1)
    show "\<forall>j<length ?lines. request_marker_line 2 (?lines ! j) \<longrightarrow> j = 1"
      using m0 by (simp add: All_less_Suc)
    show "collect_at sample_loads ?lines 1 = Some ?obj" by (rule c)
    show "?obj = ?obj" by simp
    show "set (request_required_keys 2) \<subseteq> set (map fst [(''cart'', JObj []), (''destination'', JObj [])])"
      by (simp add: request_required_keys_def)
  qed
  have n0: "\<not> request_marker_line 1 (?lines ! 0)" by code_simp
  have n1: "\<not> request_marker_line 1 (?lines ! 1)" by code_simp
  have a: "request_tier_absent ?lines 1"
    using n0 n1 by (simp add: request_tier_absent_def All_less_Suc)
  have "\<forall>k'. 1 \<le> k' \<and> k' < 2 \<longrightarrow> request_tier_absent ?lines k'"
  proof (intro allI impI)
    fix k' :: nat assume "1 \<le> k' \<and> k' < 2"
    then have "k' = 1" by linarith
    with a show "request_tier_absent ?lines k'" by simp
  qed
  from resolve_request_highest_priority [OF _ _ p this] p a show ?thesis
    by simp
qed

text \<open>
  The claim's pair of a marker and its JSON, read off the text: the line holds the
  marker, and the text that follows the marker on the line, stripped on the left, decodes.
\<close>

fun after_marker :: "string \<Rightarrow> string \<Rightarrow> string option" where
  "after_marker marker [] = (if marker = [] then Some [] else None)"
| "after_marker marker (c # cs) =
     (if prefix marker (c # cs) then Some (drop (length marker) (c # cs))
      else after_marker marker cs)"

definition json_after_marker :: "(string \<Rightarrow> json option) \<Rightarrow> string \<Rightarrow> string \<Rightarrow> json option" where
  "json_after_marker loads marker line =
     (case after_marker marker line of
        None \<Rightarrow> None
      | Some rest \<Rightarrow> loads (lstrip rest))"

text \<open>
  C1, as the claim words it, fails. The log below holds one line of the shopify marker
  followed by a JSON object with \<open>cart\<close> and \<open>destination\<close>, and before it one line of
  the \<open>[REQUEST]:\<close> marker with its object. The shopify line has a brace before the
  marker, the extractor starts at that brace, the block does not decode, and the resolver
  returns the payload of the fourth strategy.
\<close>

theorem resolve_request_counterexample:
  \<open>json_after_marker sample_loads ''Converted shopify request to''
      ''ts {thread-1} Converted shopify request to {"cart": {}, "destination": {}}'' =
     Some (JObj [(''cart'', JObj []), (''destination'', JObj [])]) \<and>
   json_after_marker sample_loads ''[REQUEST]:'' ''[REQUEST]: {"cart": {}}'' =
     Some (JObj [(''cart'', JObj [])]) \<and>
   marker_indices
      [''[REQUEST]: {"cart": {}}'',
       ''ts {thread-1} Converted shopify request to {"cart": {}, "destination": {}}'']
      ''Converted shopify request to'' = [1] \<and>
   resolve_request sample_loads
      [''[REQUEST]: {"cart": {}}'',
       ''ts {thread-1} Converted shopify request to {"cart": {}, "destination": {}}''] =
     Inr (JObj [(''cart'', JObj [])])\<close>
  by code_simp

section \<open>Properties of the response side of the resolver\<close>

text \<open>
  Response strategy 1 as the claim words it: the matches of the marker are read latest
  first, and the first one whose payload deeply contains \<open>carrierGroups\<close> is selected.
\<close>

fun first_with_carrier_groups ::
    "(string \<Rightarrow> json option) \<Rightarrow> string list \<Rightarrow> nat list \<Rightarrow> json option" where
  "first_with_carrier_groups loads lines [] = None"
| "first_with_carrier_groups loads lines (i # indices) =
     (case collect_at loads lines i of
        None \<Rightarrow> first_with_carrier_groups loads lines indices
      | Some obj \<Rightarrow>
          if json_contains_carrier_groups obj then Some obj
          else first_with_carrier_groups loads lines indices)"

definition claimed_response_strategy_1 :: "(string \<Rightarrow> json option) \<Rightarrow> string list \<Rightarrow> json option" where
  "claimed_response_strategy_1 loads lines =
     first_with_carrier_groups loads lines
       (rev (marker_indices lines ''Adapting the following rate response to shopify response''))"

lemma extract_loop_skip:
  assumes "\<forall>j \<in> set pre. collect_at loads lines j = None"
  shows "extract_loop loads lines ks (pre @ rest) = extract_loop loads lines ks rest"
  using assms by (induction pre) simp_all

lemma marker_indices_split:
  assumes "i < length lines" "str_in marker (lines ! i)"
  shows "marker_indices lines marker =
           filter (\<lambda>j. str_in marker (lines ! j)) [0..<i] @ i #
           filter (\<lambda>j. str_in marker (lines ! j)) [Suc i..<length lines]"
proof -
  have "[0..<i + (length lines - i)] = [0..<i] @ [i..<i + (length lines - i)]"
    by (rule upt_add_eq_append) simp
  then have "[0..<length lines] = [0..<i] @ i # [Suc i..<length lines]"
    using assms(1) by (simp add: upt_conv_Cons)
  then show ?thesis
    using assms(2) by (simp add: marker_indices_def)
qed

lemma extract_latest_decodable:
  assumes i: "i < length lines" and m: "str_in marker (lines ! i)"
    and c: "collect_at loads lines i = Some obj"
    and later: "\<forall>j<length lines. i < j \<and> str_in marker (lines ! j) \<longrightarrow> collect_at loads lines j = None"
  shows "extract_json_after_marker loads lines marker [] False = Inr (Some obj)"
proof -
  let ?P = "\<lambda>j. str_in marker (lines ! j)"
  have s: "marker_indices lines marker = filter ?P [0..<i] @ i # filter ?P [Suc i..<length lines]"
    using i m by (rule marker_indices_split)
  have n: "\<forall>j \<in> set (rev (filter ?P [Suc i..<length lines])). collect_at loads lines j = None"
    using later by simp
  have "extract_loop loads lines [] (rev (marker_indices lines marker)) =
          extract_loop loads lines [] (i # rev (filter ?P [0..<i]))"
    using extract_loop_skip [OF n] by (simp add: s)
  also have "\<dots> = Inr (Some obj)"
    using c by simp
  finally show ?thesis
    by (simp add: extract_json_after_marker_def Let_def s)
qed

text \<open>
  C2, as the code has it. Response strategy 1 reads the matches of its marker latest
  first and skips only the matches where the collector decodes nothing; its candidate is
  the latest match that decodes. When that payload is not empty, the strategy selects it
  if it deeply contains \<open>carrierGroups\<close>, and otherwise yields no match: the earlier
  matches of the marker are not tried, and the resolver goes on with strategy 2.
\<close>

theorem response_strategy_1_latest_decodable:
  assumes "i < length lines"
    and "str_in ''Adapting the following rate response to shopify response'' (lines ! i)"
    and "collect_at loads lines i = Some obj"
    and "\<forall>j<length lines.
           i < j \<and> str_in ''Adapting the following rate response to shopify response'' (lines ! j)
             \<longrightarrow> collect_at loads lines j = None"
    and "truthy obj"
  shows "response_strategy loads lines 1 =
           Inr (if json_contains_carrier_groups obj then Some obj else None) \<and>
         (\<not> json_contains_carrier_groups obj \<longrightarrow>
            first_found (response_strategy loads lines) [1, 2, 3, 4, 5] =
            first_found (response_strategy loads lines) [2, 3, 4, 5])"
proof -
  have "extract_json_after_marker loads lines
          ''Adapting the following rate response to shopify response'' [] False = Inr (Some obj)"
    using assms(1-4) by (rule extract_latest_decodable)
  with assms(5) have r: "response_strategy loads lines 1 =
           Inr (if json_contains_carrier_groups obj then Some obj else None)"
    by (simp add: response_strategy_def response_marker_strategy_def)
  then show ?thesis by simp
qed

theorem response_strategy_1_latest_decodable_witness:
  \<open>collect_at sample_loads
      [''Adapting the following rate response to shopify response {"carrierGroups": []}'',
       ''Adapting the following rate response to shopify response {"a": 1}''] 1 =
     Some (JObj [(''a'', JInt 1)]) \<and>
   truthy (JObj [(''a'', JInt 1)]) \<and>
   response_strategy sample_loads
      [''Adapting the following rate response to shopify response {"carrierGroups": []}'',
       ''Adapting the following rate response to shopify response {"a": 1}''] 1 = Inr None\<close>
proof -
  let ?lines = \<open>[''Adapting the following rate response to shopify response {"carrierGroups": []}'',
       ''Adapting the following rate response to shopify response {"a": 1}'']\<close>
  have l: "1 < length ?lines" by simp
  have m: "str_in ''Adapting the following rate response to shopify response'' (?lines ! 1)"
    by code_simp
  have c: "collect_at sample_loads ?lines 1 = Some (JObj [(''a'', JInt 1)])"
    by code_simp
  have n: "\<forall>j<length ?lines.
           1 < j \<and> str_in ''Adapting the following rate response to shopify response'' (?lines ! j)
             \<longrightarrow> collect_at sample_loads ?lines j = None"
    by simp
  have t: "truthy (JObj [(''a'', JInt 1)])" by simp
  from response_strategy_1_latest_decodable [OF l m c n t] c t show ?thesis
    by simp
qed

text \<open>
  C2, as the claim words it, fails: with an earlier match that holds \<open>carrierGroups\<close> and
  a later match that does not, the claim selects the earlier match, while the code's
  strategy 1 yields nothing and, no other strategy matching, the resolver raises.
\<close>

theorem response_strategy_1_counterexample:
  \<open>claimed_response_strategy_1 sample_loads
      [''Adapting the following rate response to shopify response {"carrierGroups": []}'',
       ''Adapting the following rate response to shopify response {"a": 1}''] =
     Some (JObj [(''carrierGroups'', JArr [])]) \<and>
   response_strategy sample_loads
      [''Adapting the following rate response to shopify response {"carrierGroups": []}'',
       ''Adapting the following rate response to shopify response {"a": 1}''] 1 = Inr None \<and>
   resolve_response sample_loads
      [''Adapting the following rate response to shopify response {"carrierGroups": []}'',
       ''Adapting the following rate response to shopify response {"a": 1}''] =
     Inl (ValueError ''Could not extract response JSON from this log.'')\<close>
  by code_simp

text \<open>
  C3 at a log whose latest shopify response block is the empty object. The test after
  the extraction is \<open>if response_json and not json_contains_carrier_groups(response_json)\<close>;
  the empty object is falsy, so it is kept, no later strategy runs, and the resolver
  hands \<open>extract_fields\<close> a response without \<open>carrierGroups\<close>.
\<close>

theorem resolve_payloads_empty_response:
  \<open>resolve_payloads sample_loads
      [''Converted shopify request to {"cart": {}, "destination": {}}'',
       ''Adapting the following rate response to shopify response {}''] =
     Inr (JObj [(''cart'', JObj []), (''destination'', JObj [])], JObj []) \<and>
   \<not> json_contains_carrier_groups (JObj [])\<close>
  by code_simp

section \<open>The field normalizer\<close>

text \<open>
  Python operations on decoded values. \<open>dict_get\<close> is \<open>d.get(key, default)\<close> on the
  items of a \<open>dict\<close>; \<open>py_get\<close> is the same call on any value and raises
  \<open>AttributeError\<close> when the value is not a \<open>dict\<close>. \<open>py_or\<close> is \<open>x or y\<close>, \<open>py_iter\<close>
  the sequence a \<open>for\<close> loop runs over.
\<close>

definition dict_get :: "(string \<times> json) list \<Rightarrow> string \<Rightarrow> json \<Rightarrow> json" where
  "dict_get kvs key dflt = (case map_of kvs key of Some v \<Rightarrow> v | None \<Rightarrow> dflt)"

fun py_get :: "json \<Rightarrow> string \<Rightarrow> json \<Rightarrow> py_error + json" where
  "py_get (JObj kvs) key dflt = Inr (dict_get kvs key dflt)"
| "py_get _ key dflt = Inl AttributeError"

definition py_or :: "json \<Rightarrow> json \<Rightarrow> json" where
  "py_or x y = (if truthy x then x else y)"

fun py_iter :: "json \<Rightarrow> py_error + json list" where
  "py_iter (JArr xs) = Inr xs"
| "py_iter (JObj kvs) = Inr (map (\<lambda>kv. JStr (fst kv)) kvs)"
| "py_iter (JStr s) = Inr (map (\<lambda>c. JStr [c]) s)"
| "py_iter _ = Inl TypeError"

fun py_getitem :: "json \<Rightarrow> string \<Rightarrow> py_error + json" where
  \<comment> \<open>\<open>v[key]\<close> for a string key\<close>
  "py_getitem (JObj kvs) key = (case map_of kvs key of Some v \<Rightarrow> Inr v | None \<Rightarrow> Inl KeyError)"
| "py_getitem _ key = Inl TypeError"

fun py_getitem_0 :: "json \<Rightarrow> py_error + json" where
  \<comment> \<open>\<open>v[0]\<close>; the keys of a decoded object are strings, so \<open>0\<close> is never one of them\<close>
  "py_getitem_0 (JArr []) = Inl IndexError"
| "py_getitem_0 (JArr (x # xs)) = Inr x"
| "py_getitem_0 (JStr []) = Inl IndexError"
| "py_getitem_0 (JStr (c # cs)) = Inr (JStr [c])"
| "py_getitem_0 (JObj kvs) = Inl KeyError"
| "py_getitem_0 _ = Inl TypeError"

text \<open>
  \<open>str(v)\<close> is the value itself for a string. For the other values it is Python's
  formatting of numbers, lists and dicts, which the program leaves to the language: the
  parameter \<open>str_of\<close>.
\<close>

definition py_str :: "(json \<Rightarrow> string) \<Rightarrow> json \<Rightarrow> string" where
  "py_str str_of v = (case v of JStr s \<Rightarrow> s | _ \<Rightarrow> str_of v)"

subsection \<open>Cart items\<close>

record attr_state =
  a_length :: json
  a_width :: json
  a_height :: json
  a_shipping_group :: json
  a_dim_group :: json

record cart_item =
  product :: json
  qty :: json
  weight :: json
  item_value :: json
  shipping_group :: json
  dim_group :: json
  dimensions :: string

definition attr_init :: attr_state where
  "attr_init = \<lparr>a_length = JNull, a_width = JNull, a_height = JNull,
                 a_shipping_group = JStr ''N/A'', a_dim_group = JStr ''N/A''\<rparr>"

text \<open>
  \<open>name = (attr.get("name") or "").lower()\<close>: a truthy name that is not a string has no
  \<open>lower\<close>.
\<close>

definition attr_name :: "json \<Rightarrow> py_error + string" where
  "attr_name attr =
     (case py_get attr ''name'' JNull of
        Inl e \<Rightarrow> Inl e
      | Inr n \<Rightarrow>
          (case py_or n (JStr []) of
             JStr s \<Rightarrow> Inr (lower s)
           | _ \<Rightarrow> Inl AttributeError))"

definition attr_val :: "(json \<Rightarrow> string) \<Rightarrow> (string \<times> json) list \<Rightarrow> json" where
  "attr_val str_of attr =
     (let vals = dict_get attr ''values'' JNull;
          val = dict_get attr ''value'' JNull
      in case vals of
           JArr vs \<Rightarrow>
             if vs \<noteq> [] then
               py_or (JStr (join '', '' (map (py_str str_of) (filter (\<lambda>v. v \<noteq> JNull) vs)))) val
             else val
         | _ \<Rightarrow> val)"

definition attr_step :: "(json \<Rightarrow> string) \<Rightarrow> attr_state \<Rightarrow> json \<Rightarrow> py_error + attr_state" where
  "attr_step str_of st attr =
     (case attr_name attr of
        Inl e \<Rightarrow> Inl e
      | Inr name \<Rightarrow>
          (case attr of
             JObj kvs \<Rightarrow>
               (let val = attr_val str_of kvs in
                if name = ''shipperhq_shipping_group'' then
                  Inr (st\<lparr>a_shipping_group := py_or val (JStr ''N/A'')\<rparr>)
                else if name = ''shipperhq_dim_group'' then
                  Inr (st\<lparr>a_dim_group := py_or val (JStr ''N/A'')\<rparr>)
                else if name \<in> set [''ship_length'', ''shipperhq_length'', ''length''] then
                  Inr (st\<lparr>a_length := val\<rparr>)
                else if name \<in> set [''ship_width'', ''shipperhq_width'', ''width''] then
                  Inr (st\<lparr>a_width := val\<rparr>)
                else if name \<in> set [''ship_height'', ''shipperhq_height'', ''height''] then
                  Inr (st\<lparr>a_height := val\<rparr>)
                else Inr st)
           | _ \<Rightarrow> Inl AttributeError))"

fun attr_loop :: "(json \<Rightarrow> string) \<Rightarrow> attr_state \<Rightarrow> json list \<Rightarrow> py_error + attr_state" where
  "attr_loop str_of st [] = Inr st"
| "attr_loop str_of st (attr # attrs) =
     (case attr_step str_of st attr of
        Inl e \<Rightarrow> Inl e
      | Inr st' \<Rightarrow> attr_loop str_of st' attrs)"

text \<open>
  The attribute loop of one item: the values of \<open>length\<close>, \<open>width\<close>, \<open>height\<close>,
  \<open>shipping_group\<close> and \<open>dim_group\<close> when the loop is over.
\<close>

definition resolved_attributes :: "(json \<Rightarrow> string) \<Rightarrow> json \<Rightarrow> py_error + attr_state" where
  "resolved_attributes str_of item =
     (case py_get item ''attributes'' (JArr []) of
        Inl e \<Rightarrow> Inl e
      | Inr attributes \<Rightarrow>
          (case py_iter attributes of
             Inl e \<Rightarrow> Inl e
           | Inr attrs \<Rightarrow> attr_loop str_of attr_init attrs))"

definition make_cart_item :: "(json \<Rightarrow> string) \<Rightarrow> json \<Rightarrow> py_error + cart_item" where
  "make_cart_item str_of item =
     (case resolved_attributes str_of item of
        Inl e \<Rightarrow> Inl e
      | Inr st \<Rightarrow>
          (case item of
             JObj kvs \<Rightarrow>
               Inr \<lparr>product = dict_get kvs ''sku'' JNull,
                    qty = dict_get kvs ''qty'' JNull,
                    weight = dict_get kvs ''weight'' JNull,
                    item_value = dict_get kvs ''rowTotal'' JNull,
                    shipping_group = a_shipping_group st,
                    dim_group = a_dim_group st,
                    dimensions =
                      (if truthy (a_length st) \<and> truthy (a_width st) \<and> truthy (a_height st)
                       then py_str str_of (a_length st) @ ''x'' @ py_str str_of (a_width st) @
                            ''x'' @ py_str str_of (a_height st)
                       else ''N/A'')\<rparr>
           | _ \<Rightarrow> Inl AttributeError))"

text \<open>
  The loop over the items runs inside \<open>try ... except Exception: pass\<close>: an exception
  ends it and the items appended so far stay.
\<close>

fun cart_loop :: "(json \<Rightarrow> string) \<Rightarrow> json list \<Rightarrow> cart_item list" where
  "cart_loop str_of [] = []"
| "cart_loop str_of (item # items) =
     (case make_cart_item str_of item of
        Inl e \<Rightarrow> []
      | Inr ci \<Rightarrow> ci # cart_loop str_of items)"

definition cart_items :: "(json \<Rightarrow> string) \<Rightarrow> json \<Rightarrow> cart_item list" where
  "cart_items str_of request_json =
     (case py_get request_json ''cart'' (JObj []) of
        Inl e \<Rightarrow> []
      | Inr cart \<Rightarrow>
          (case py_get cart ''items'' (JArr []) of
             Inl e \<Rightarrow> []
           | Inr items \<Rightarrow>
               (case py_iter items of
                  Inl e \<Rightarrow> []
                | Inr xs \<Rightarrow> cart_loop str_of xs)))"

subsection \<open>Properties of the cart items\<close>



subsection \<open>Method entries\<close>

record method_entry =
  carrier :: json
  service_name :: json
  base :: json
  final :: json
  handling :: json
  negotiated :: json
  address_type :: json
  flat_rules :: json
  change_rules :: json
  packing :: json
  blocked_reasons :: json
  error_message :: json

fun pick_shipments :: "json list \<Rightarrow> json" where
  "pick_shipments [] = JArr []"
| "pick_shipments (src # sources) =
     (case src of
        JObj kvs \<Rightarrow>
          (case dict_get kvs ''shipments'' JNull of
             JArr (s # ships) \<Rightarrow> JArr (s # ships)
           | _ \<Rightarrow> pick_shipments sources)
      | _ \<Rightarrow> pick_shipments sources)"

definition carrier_name :: "(string \<times> json) list \<Rightarrow> json" where
  "carrier_name carrier_obj =
     py_or (py_or (dict_get carrier_obj ''carrierName'' JNull) (dict_get carrier_obj ''carrierTitle'' JNull))
       (JStr ''Unknown Carrier'')"

text \<open>
  \<open>options = (r.get("selectedOptions") or {}).get("options") or []\<close>, then
  \<open>options[0].get("value")\<close> when \<open>options\<close> is a list that is not empty.
\<close>

definition rate_address_type :: "(string \<times> json) list \<Rightarrow> py_error + json" where
  "rate_address_type r =
     (case py_get (py_or (dict_get r ''selectedOptions'' JNull) (JObj [])) ''options'' JNull of
        Inl e \<Rightarrow> Inl e
      | Inr opts \<Rightarrow>
          (case py_or opts (JArr []) of
             JArr (opt # rest) \<Rightarrow> py_get opt ''value'' JNull
           | _ \<Rightarrow> Inr JNull))"

definition rate_entry ::
    "json \<Rightarrow> (string \<times> json) list \<Rightarrow> (string \<times> json) list \<Rightarrow> py_error + method_entry" where
  "rate_entry name carrier_obj r =
     (case rate_address_type r of
        Inl e \<Rightarrow> Inl e
      | Inr addr \<Rightarrow>
          Inr \<lparr>carrier = name,
               service_name = dict_get r ''name'' JNull,
               base = dict_get r ''origShippingPrice'' (dict_get r ''totalCharges'' JNull),
               final = dict_get r ''shippingPrice'' JNull,
               handling = dict_get r ''handlingFee'' JNull,
               negotiated = dict_get r ''negotiatedRate'' (JBool False),
               address_type = addr,
               flat_rules = dict_get r ''flatRulesApplied'' (JArr []),
               change_rules = dict_get r ''changeRulesApplied'' (JArr []),
               packing = pick_shipments [JObj r, JObj carrier_obj],
               blocked_reasons = JArr [],
               error_message = JStr []\<rparr>)"

text \<open>
  The loops over groups, carriers and rates run inside one \<open>try\<close>: an exception ends all
  of them, and the entries appended so far stay. A loop gives the entries it appended
  and the exception that ended it, if one did. Each loop skips the elements that are
  not a \<open>dict\<close>.
\<close>

fun for_each_dict ::
    "((string \<times> json) list \<Rightarrow> method_entry list \<times> py_error option) \<Rightarrow> json list \<Rightarrow>
     method_entry list \<times> py_error option" where
  "for_each_dict body [] = ([], None)"
| "for_each_dict body (x # xs) =
     (case x of
        JObj kvs \<Rightarrow>
          (case body kvs of
             (ms, Some e) \<Rightarrow> (ms, Some e)
           | (ms, None) \<Rightarrow>
               (case for_each_dict body xs of (ms', e) \<Rightarrow> (ms @ ms', e)))
      | _ \<Rightarrow> for_each_dict body xs)"

definition rate_body ::
    "json \<Rightarrow> (string \<times> json) list \<Rightarrow> (string \<times> json) list \<Rightarrow> method_entry list \<times> py_error option" where
  "rate_body name carrier_obj r =
     (case rate_entry name carrier_obj r of Inl e \<Rightarrow> ([], Some e) | Inr m \<Rightarrow> ([m], None))"

text \<open>The \<open>if not rates:\<close> block: no entry or one entry, or the exception of \<open>err.get\<close>.\<close>

definition no_rates_entries :: "(string \<times> json) list \<Rightarrow> py_error + method_entry list" where
  "no_rates_entries carrier_obj =
     (let prevent = py_or (dict_get carrier_obj ''preventRulesApplied'' JNull) (JArr []);
          err = py_or (dict_get carrier_obj ''error'' JNull) (JObj [])
      in case err of
           JObj e \<Rightarrow>
             (let err_msg =
                    py_or (py_or (dict_get e ''internalErrorMessage'' JNull)
                                 (dict_get e ''externalErrorMessage'' JNull)) (JStr [])
              in if truthy prevent \<or> truthy err_msg then
                   Inr [\<lparr>carrier = carrier_name carrier_obj,
                         service_name =
                           py_or (dict_get carrier_obj ''carrierTitle'' JNull) (carrier_name carrier_obj),
                         base = JNull,
                         final = JNull,
                         handling = JNull,
                         negotiated = dict_get carrier_obj ''negotiatedRate'' (JBool False),
                         address_type = JNull,
                         flat_rules = JArr [],
                         change_rules = JArr [],
                         packing = pick_shipments [JObj carrier_obj],
                         blocked_reasons = prevent,
                         error_message = err_msg\<rparr>]
                 else Inr [])
         | _ \<Rightarrow> Inl AttributeError)"

definition carrier_methods :: "(string \<times> json) list \<Rightarrow> method_entry list \<times> py_error option" where
  "carrier_methods carrier_obj =
     (let rates = py_or (dict_get carrier_obj ''rates'' JNull) (JArr []) in
      case py_iter rates of
        Inl e \<Rightarrow> ([], Some e)
      | Inr rs \<Rightarrow>
          (case for_each_dict (rate_body (carrier_name carrier_obj) carrier_obj) rs of
             (ms, Some e) \<Rightarrow> (ms, Some e)
           | (ms, None) \<Rightarrow>
               if \<not> truthy rates then
                 (case no_rates_entries carrier_obj of
                    Inl e \<Rightarrow> (ms, Some e)
                  | Inr es \<Rightarrow> (ms @ es, None))
               else (ms, None)))"

definition group_methods :: "(string \<times> json) list \<Rightarrow> method_entry list \<times> py_error option" where
  "group_methods group_obj =
     (case py_iter (dict_get group_obj ''carrierRates'' (JArr [])) of
        Inl e \<Rightarrow> ([], Some e)
      | Inr carriers \<Rightarrow> for_each_dict carrier_methods carriers)"

definition method_entries :: "json \<Rightarrow> method_entry list" where
  "method_entries response_json =
     (case py_get response_json ''carrierGroups'' (JArr []) of
        Inl e \<Rightarrow> []
      | Inr gs \<Rightarrow>
          (case py_iter gs of
             Inl e \<Rightarrow> []
           | Inr groups \<Rightarrow> fst (for_each_dict group_methods groups)))"

subsection \<open>The summary\<close>

record summary =
  ship_from :: json
  ship_to :: json
  cart :: "cart_item list"
  methods :: "method_entry list"

definition origin_address :: "json \<Rightarrow> py_error + json" where
  \<comment> \<open>\<open>response_json["carrierGroups"][0]["carrierGroupDetail"]["originAddress"]\<close>\<close>
  "origin_address response_json =
     (case py_getitem response_json ''carrierGroups'' of
        Inl e \<Rightarrow> Inl e
      | Inr gs \<Rightarrow>
          (case py_getitem_0 gs of
             Inl e \<Rightarrow> Inl e
           | Inr g \<Rightarrow>
               (case py_getitem g ''carrierGroupDetail'' of
                  Inl e \<Rightarrow> Inl e
                | Inr d \<Rightarrow> py_getitem d ''originAddress'')))"

definition extract_fields :: "(json \<Rightarrow> string) \<Rightarrow> json \<Rightarrow> json \<Rightarrow> summary" where
  "extract_fields str_of request_json response_json =
     \<lparr>ship_from = (case origin_address response_json of Inl e \<Rightarrow> JObj [] | Inr a \<Rightarrow> a),
      ship_to = (case py_getitem request_json ''destination'' of Inl e \<Rightarrow> JObj [] | Inr d \<Rightarrow> d),
      cart = cart_items str_of request_json,
      methods = method_entries response_json\<rparr>"

section \<open>Parsing a log and the main program\<close>

definition parse_log_file ::
    "(string \<Rightarrow> json option) \<Rightarrow> (json \<Rightarrow> string) \<Rightarrow> string list \<Rightarrow> py_error + summary" where
  "parse_log_file loads str_of lines =
     (case resolve_payloads loads lines of
        Inl e \<Rightarrow> Inl e
      | Inr (request_json, response_json) \<Rightarrow>
          Inr (extract_fields str_of request_json response_json))"

text \<open>
  The \<open>try\<close> block at the end of the main program, for a log that was read: the report
  file written, if one was, and the exit code. The report renderer is the parameter
  \<open>generate_report\<close>; an exception anywhere in the block prints the error and exits
  with code 1, before any file is opened.
\<close>

record run_result =
  report_written :: "string option"
  exit_code :: int

definition main_process ::
    "(string \<Rightarrow> json option) \<Rightarrow> (json \<Rightarrow> string) \<Rightarrow> (summary \<Rightarrow> py_error + string) \<Rightarrow>
     string list \<Rightarrow> run_result" where
  "main_process loads str_of generate_report lines =
     (case parse_log_file loads str_of lines of
        Inl e \<Rightarrow> \<lparr>report_written = None, exit_code = 1\<rparr>
      | Inr summary \<Rightarrow>
          (case generate_report summary of
             Inl e \<Rightarrow> \<lparr>report_written = None, exit_code = 1\<rparr>
           | Inr report \<Rightarrow> \<lparr>report_written = Some report, exit_code = 0\<rparr>))"

section \<open>Properties of the cart of the summary\<close>






section \<open>Properties of the method entries\<close>

lemma no_rates_entries_object:
  assumes "py_or (dict_get c ''error'' JNull) (JObj []) = JObj err"
  shows "no_rates_entries c =
     (if truthy (py_or (dict_get c ''preventRulesApplied'' JNull) (JArr [])) \<or>
         truthy (py_or (py_or (dict_get err ''internalErrorMessage'' JNull)
                              (dict_get err ''externalErrorMessage'' JNull)) (JStr []))
      then
        Inr [\<lparr>carrier = carrier_name c,
              service_name = py_or (dict_get c ''carrierTitle'' JNull) (carrier_name c),
              base = JNull, final = JNull, handling = JNull,
              negotiated = dict_get c ''negotiatedRate'' (JBool False),
              address_type = JNull, flat_rules = JArr [], change_rules = JArr [],
              packing = pick_shipments [JObj c],
              blocked_reasons = py_or (dict_get c ''preventRulesApplied'' JNull) (JArr []),
              error_message =
                py_or (py_or (dict_get err ''internalErrorMessage'' JNull)
                             (dict_get err ''externalErrorMessage'' JNull)) (JStr [])\<rparr>]
      else Inr [])"
  unfolding no_rates_entries_def Let_def assms by simp

lemma carrier_methods_no_rates:
  assumes "\<not> truthy (dict_get c ''rates'' JNull)"
  shows "carrier_methods c =
     (case no_rates_entries c of Inl e \<Rightarrow> ([], Some e) | Inr es \<Rightarrow> (es, None))"
proof -
  from assms have r: "py_or (dict_get c ''rates'' JNull) (JArr []) = JArr []"
    by (simp add: py_or_def)
  show ?thesis
    unfolding carrier_methods_def Let_def r by (simp split: sum.splits)
qed

text \<open>
  The step of one carrier whose \<open>rates\<close> is empty or missing and whose \<open>error\<close> is
  missing, falsy or an object.
\<close>

lemma carrier_methods_without_rates:
  assumes "\<not> truthy (dict_get c ''rates'' JNull)"
    and "py_or (dict_get c ''error'' JNull) (JObj []) = JObj err"
    and "prevent = py_or (dict_get c ''preventRulesApplied'' JNull) (JArr [])"
    and "err_msg = py_or (py_or (dict_get err ''internalErrorMessage'' JNull)
                                (dict_get err ''externalErrorMessage'' JNull)) (JStr [])"
  shows "(truthy prevent \<or> truthy err_msg \<longrightarrow>
            (\<exists>m. carrier_methods c = ([m], None) \<and>
                 blocked_reasons m = prevent \<and> error_message m = err_msg)) \<and>
         (\<not> truthy prevent \<and> \<not> truthy err_msg \<longrightarrow> carrier_methods c = ([], None)) \<and>
         (\<not> truthy (dict_get c ''preventRulesApplied'' JNull) \<and> map_of c ''error'' = None \<longrightarrow>
            carrier_methods c = ([], None))"
proof -
  note n = no_rates_entries_object [OF assms(2), folded assms(3,4)]
  note m = carrier_methods_no_rates [OF assms(1)]
  have 1: "truthy prevent \<or> truthy err_msg \<longrightarrow>
            (\<exists>m. carrier_methods c = ([m], None) \<and>
                 blocked_reasons m = prevent \<and> error_message m = err_msg)"
    by (simp add: m n)
  have 2: "\<not> truthy prevent \<and> \<not> truthy err_msg \<longrightarrow> carrier_methods c = ([], None)"
    by (simp add: m n)
  have 3: "\<not> truthy (dict_get c ''preventRulesApplied'' JNull) \<and> map_of c ''error'' = None \<longrightarrow>
            carrier_methods c = ([], None)"
  proof
    assume a: "\<not> truthy (dict_get c ''preventRulesApplied'' JNull) \<and> map_of c ''error'' = None"
    then have "py_or (dict_get c ''error'' JNull) (JObj []) = JObj []"
      by (simp add: py_or_def dict_get_def)
    with assms(2) have "err = []" by simp
    with assms(4) have "\<not> truthy err_msg"
      by (simp add: py_or_def dict_get_def)
    moreover from a assms(3) have "\<not> truthy prevent"
      by (simp add: py_or_def)
    ultimately show "carrier_methods c = ([], None)"
      using 2 by simp
  qed
  from 1 2 3 show ?thesis by blast
qed

text \<open>A carrier without rates, blocked by a rule and with an external error message.\<close>

definition sample_carrier :: "(string \<times> json) list" where
  "sample_carrier =
     [(''carrierName'', JStr ''UPS''), (''rates'', JArr []),
      (''preventRulesApplied'', JArr [JStr ''No PO boxes'']),
      (''error'', JObj [(''externalErrorMessage'', JStr ''No rates found'')])]"

lemma for_each_dict_append:
  "for_each_dict body (xs @ ys) =
     (case for_each_dict body xs of
        (ms, Some e) \<Rightarrow> (ms, Some e)
      | (ms, None) \<Rightarrow> (case for_each_dict body ys of (ms', e) \<Rightarrow> (ms @ ms', e)))"
proof (induction xs)
  case Nil
  then show ?case by (simp split: prod.splits)
next
  case (Cons x xs)
  show ?case
  proof (cases x)
    case (JObj kvs)
    obtain ms e where b: "body kvs = (ms, e)" by (cases "body kvs")
    obtain ms1 e1 where r: "for_each_dict body xs = (ms1, e1)" by (cases "for_each_dict body xs")
    obtain ms2 e2 where s: "for_each_dict body ys = (ms2, e2)" by (cases "for_each_dict body ys")
    from Cons JObj b r s show ?thesis
      by (cases e; cases e1) simp_all
  qed (use Cons in simp_all)
qed

lemma for_each_dict_reaches:
  assumes "snd (for_each_dict body xs) = None"
  shows "for_each_dict body (xs @ JObj kvs # ys) =
     (case body kvs of
        (ms, Some e) \<Rightarrow> (fst (for_each_dict body xs) @ ms, Some e)
      | (ms, None) \<Rightarrow>
          (fst (for_each_dict body xs) @ ms @ fst (for_each_dict body ys),
           snd (for_each_dict body ys)))"
proof -
  obtain ms1 where r: "for_each_dict body xs = (ms1, None)"
    using assms by (cases "for_each_dict body xs") simp
  obtain ms e where b: "body kvs = (ms, e)" by (cases "body kvs")
  obtain ms2 e2 where s: "for_each_dict body ys = (ms2, e2)" by (cases "for_each_dict body ys")
  show ?thesis
    by (cases e) (simp_all add: for_each_dict_append r b s)
qed

text \<open>
  The entries of the summary around a carrier that the loops reach: the entries of the
  groups and carriers before it, its own entries, and those of the carriers and groups
  after it (none of the later groups when a later carrier of its group raises).
\<close>

lemma method_entries_reaches:
  assumes gs: "py_get response_json ''carrierGroups'' (JArr []) = Inr groups"
    and it: "py_iter groups = Inr (gs1 @ JObj g # gs2)"
    and g1: "snd (for_each_dict group_methods gs1) = None"
    and cs: "py_iter (dict_get g ''carrierRates'' (JArr [])) = Inr (cs1 @ JObj c # cs2)"
    and c1: "snd (for_each_dict carrier_methods cs1) = None"
    and own: "carrier_methods c = (es, None)"
  shows "method_entries response_json =
           fst (for_each_dict group_methods gs1) @ fst (for_each_dict carrier_methods cs1) @
           es @ fst (for_each_dict carrier_methods cs2) @
           (case snd (for_each_dict carrier_methods cs2) of
              None \<Rightarrow> fst (for_each_dict group_methods gs2)
            | Some e \<Rightarrow> [])"
proof -
  have gm: "group_methods g =
      (fst (for_each_dict carrier_methods cs1) @ es @ fst (for_each_dict carrier_methods cs2),
       snd (for_each_dict carrier_methods cs2))"
    by (simp add: group_methods_def cs for_each_dict_reaches [OF c1] own)
  have "fst (for_each_dict group_methods (gs1 @ JObj g # gs2)) =
          fst (for_each_dict group_methods gs1) @ fst (for_each_dict carrier_methods cs1) @
           es @ fst (for_each_dict carrier_methods cs2) @
           (case snd (for_each_dict carrier_methods cs2) of
              None \<Rightarrow> fst (for_each_dict group_methods gs2)
            | Some e \<Rightarrow> [])"
    by (cases "snd (for_each_dict carrier_methods cs2)")
      (simp_all add: for_each_dict_reaches [OF g1] gm)
  then show ?thesis
    by (simp add: method_entries_def gs it)
qed

text \<open>
  C9, as the code has it. A carrier entry that the loops reach (no exception while the
  groups and the carriers before it were processed), whose \<open>rates\<close> is empty or missing
  and whose \<open>error\<close> is missing, falsy or an object, contributes to the methods of the
  summary, between the entries of what comes before and after it, exactly one entry
  carrying \<open>prevent\<close> and \<open>err_msg\<close> when one of the two is not empty, and no entry when
  both are empty; in particular no entry when \<open>preventRulesApplied\<close> is empty and there is
  no \<open>error\<close> key. Here \<open>prevent\<close> is the value of \<open>preventRulesApplied\<close> (or the empty
  list) and \<open>err_msg\<close> the internal error message, else the external one, else the empty
  string.
\<close>

theorem carrier_without_rates_in_methods:
  assumes "py_get response_json ''carrierGroups'' (JArr []) = Inr groups"
    and "py_iter groups = Inr (gs1 @ JObj g # gs2)"
    and "snd (for_each_dict group_methods gs1) = None"
    and "py_iter (dict_get g ''carrierRates'' (JArr [])) = Inr (cs1 @ JObj c # cs2)"
    and "snd (for_each_dict carrier_methods cs1) = None"
    and "\<not> truthy (dict_get c ''rates'' JNull)"
    and "py_or (dict_get c ''error'' JNull) (JObj []) = JObj err"
    and "prevent = py_or (dict_get c ''preventRulesApplied'' JNull) (JArr [])"
    and "err_msg = py_or (py_or (dict_get err ''internalErrorMessage'' JNull)
                                (dict_get err ''externalErrorMessage'' JNull)) (JStr [])"
  shows "\<exists>own.
           methods (extract_fields str_of request_json response_json) =
             fst (for_each_dict group_methods gs1) @ fst (for_each_dict carrier_methods cs1) @
             own @ fst (for_each_dict carrier_methods cs2) @
             (case snd (for_each_dict carrier_methods cs2) of
                None \<Rightarrow> fst (for_each_dict group_methods gs2)
              | Some e \<Rightarrow> []) \<and>
           (truthy prevent \<or> truthy err_msg \<longrightarrow>
              (\<exists>m. own = [m] \<and> blocked_reasons m = prevent \<and> error_message m = err_msg)) \<and>
           (\<not> truthy prevent \<and> \<not> truthy err_msg \<longrightarrow> own = []) \<and>
           (\<not> truthy (dict_get c ''preventRulesApplied'' JNull) \<and> map_of c ''error'' = None \<longrightarrow>
              own = [])"
proof -
  note w = carrier_methods_without_rates [OF assms(6-9)]
  have "\<exists>own. carrier_methods c = (own, None)"
  proof (cases "truthy prevent \<or> truthy err_msg")
    case True
    with w show ?thesis by blast
  next
    case False
    with w show ?thesis by blast
  qed
  then obtain own where own: "carrier_methods c = (own, None)"
    by blast
  have m: "methods (extract_fields str_of request_json response_json) =
             fst (for_each_dict group_methods gs1) @ fst (for_each_dict carrier_methods cs1) @
             own @ fst (for_each_dict carrier_methods cs2) @
             (case snd (for_each_dict carrier_methods cs2) of
                None \<Rightarrow> fst (for_each_dict group_methods gs2)
              | Some e \<Rightarrow> [])"
    using method_entries_reaches [OF assms(1-5) own] by (simp add: extract_fields_def)
  from w own have 1: "truthy prevent \<or> truthy err_msg \<longrightarrow>
      (\<exists>m. own = [m] \<and> blocked_reasons m = prevent \<and> error_message m = err_msg)"
    by auto
  from w own have 2: "\<not> truthy prevent \<and> \<not> truthy err_msg \<longrightarrow> own = []"
    by auto
  from w own have 3: "\<not> truthy (dict_get c ''preventRulesApplied'' JNull) \<and>
      map_of c ''error'' = None \<longrightarrow> own = []"
    by auto
  from m 1 2 3 show ?thesis by blast
qed

text \<open>
  A response with one group of two carriers: the first has a rate, the second has no
  rates, is blocked by a rule and has an external error message.
\<close>

definition sample_rated_carrier :: "(string \<times> json) list" where
  "sample_rated_carrier =
     [(''carrierName'', JStr ''USPS''),
      (''rates'', JArr [JObj [(''name'', JStr ''Ground''), (''shippingPrice'', JInt 12)]])]"

definition sample_group :: "(string \<times> json) list" where
  "sample_group = [(''carrierRates'', JArr [JObj sample_rated_carrier, JObj sample_carrier])]"

definition sample_response :: json where
  "sample_response = JObj [(''carrierGroups'', JArr [JObj sample_group])]"

theorem carrier_without_rates_in_methods_witness:
  "py_get sample_response ''carrierGroups'' (JArr []) = Inr (JArr [JObj sample_group]) \<and>
   py_iter (dict_get sample_group ''carrierRates'' (JArr [])) =
     Inr ([JObj sample_rated_carrier] @ JObj sample_carrier # []) \<and>
   snd (for_each_dict carrier_methods [JObj sample_rated_carrier]) = None \<and>
   \<not> truthy (dict_get sample_carrier ''rates'' JNull) \<and>
   map blocked_reasons (methods (extract_fields (\<lambda>v. []) (JObj []) sample_response)) =
     [JArr [], JArr [JStr ''No PO boxes'']] \<and>
   (\<exists>own m.
      methods (extract_fields (\<lambda>v. []) (JObj []) sample_response) =
        fst (for_each_dict carrier_methods [JObj sample_rated_carrier]) @ own \<and>
      own = [m] \<and> blocked_reasons m = JArr [JStr ''No PO boxes''] \<and>
      error_message m = JStr ''No rates found'')"
proof -
  have a1: "py_get sample_response ''carrierGroups'' (JArr []) = Inr (JArr [JObj sample_group])"
    by code_simp
  have a2: "py_iter (JArr [JObj sample_group]) = Inr ([] @ JObj sample_group # [])"
    by simp
  have a3: "snd (for_each_dict group_methods []) = None"
    by simp
  have a4: "py_iter (dict_get sample_group ''carrierRates'' (JArr [])) =
     Inr ([JObj sample_rated_carrier] @ JObj sample_carrier # [])"
    by code_simp
  have a5: "snd (for_each_dict carrier_methods [JObj sample_rated_carrier]) = None"
    by code_simp
  have a6: "\<not> truthy (dict_get sample_carrier ''rates'' JNull)"
    by code_simp
  have a7: "py_or (dict_get sample_carrier ''error'' JNull) (JObj []) =
     JObj [(''externalErrorMessage'', JStr ''No rates found'')]"
    by code_simp
  have a8: "JArr [JStr ''No PO boxes''] =
     py_or (dict_get sample_carrier ''preventRulesApplied'' JNull) (JArr [])"
    by code_simp
  have a9: "JStr ''No rates found'' =
     py_or (py_or (dict_get [(''externalErrorMessage'', JStr ''No rates found'')]
                     ''internalErrorMessage'' JNull)
                  (dict_get [(''externalErrorMessage'', JStr ''No rates found'')]
                     ''externalErrorMessage'' JNull)) (JStr [])"
    by code_simp
  have b: "map blocked_reasons (methods (extract_fields (\<lambda>v. []) (JObj []) sample_response)) =
     [JArr [], JArr [JStr ''No PO boxes'']]"
    by code_simp
  from carrier_without_rates_in_methods [OF a1 a2 a3 a4 a5 a6 a7 a8 a9,
      of "\<lambda>v. []" "JObj []"]
  have "\<exists>own m.
      methods (extract_fields (\<lambda>v. []) (JObj []) sample_response) =
        fst (for_each_dict carrier_methods [JObj sample_rated_carrier]) @ own \<and>
      own = [m] \<and> blocked_reasons m = JArr [JStr ''No PO boxes''] \<and>
      error_message m = JStr ''No rates found''"
    by auto
  with a1 a4 a5 a6 b show ?thesis by blast
qed

text \<open>
  C9, as the claim words it, for every carrier entry of the response, fails. The second
  carrier below has no rates, a rule that blocks it and no \<open>error\<close>; the first has an
  \<open>error\<close> that is a string, \<open>err.get\<close> raises on it, the one \<open>try\<close> around the loops ends
  them all, and the summary has no method entry.
\<close>

definition sample_raising_carrier :: "(string \<times> json) list" where
  "sample_raising_carrier = [(''rates'', JArr []), (''error'', JStr ''boom'')]"

definition sample_blocked_carrier :: "(string \<times> json) list" where
  "sample_blocked_carrier =
     [(''carrierName'', JStr ''FedEx''), (''rates'', JArr []),
      (''preventRulesApplied'', JArr [JStr ''No PO boxes''])]"

theorem carrier_without_rates_counterexample:
  "\<not> truthy (dict_get sample_blocked_carrier ''rates'' JNull) \<and>
   truthy (dict_get sample_blocked_carrier ''preventRulesApplied'' JNull) \<and>
   map_of sample_blocked_carrier ''error'' = None \<and>
   methods (extract_fields (\<lambda>v. []) (JObj [])
     (JObj [(''carrierGroups'', JArr [JObj [(''carrierRates'',
        JArr [JObj sample_raising_carrier, JObj sample_blocked_carrier])]])])) = []"
  by code_simp

section \<open>Exhausted strategies\<close>

lemma generic_request_loop_no_raise:
  assumes "decodes_objects loads"
  shows "generic_request_loop loads lines idxs \<noteq> Inl e"
proof (induction idxs)
  case Nil
  then show ?case by simp
next
  case (Cons i idxs)
  show ?case
  proof (cases "collect_at loads lines i")
    case None
    with Cons show ?thesis by simp
  next
    case (Some obj)
    with assms have "is_object obj"
      by (auto dest: collect_at_object)
    then obtain kvs where "obj = JObj kvs"
      by (cases obj) auto
    with Some Cons show ?thesis
      by (simp split: bool.splits)
  qed
qed

lemma request_strategy_no_raise:
  assumes "decodes_objects loads"
  shows "request_strategy loads lines k \<noteq> Inl e"
  using extract_loop_object [OF assms] generic_request_loop_no_raise [OF assms]
  by (simp add: request_strategy_def extract_json_after_marker_def Let_def)

lemma generic_response_loop_no_raise: "generic_response_loop loads lines idxs \<noteq> Inl e"
  by (induction idxs) (simp_all split: option.splits)

lemma response_strategy_no_raise:
  assumes "decodes_objects loads"
  shows "response_strategy loads lines k \<noteq> Inl e"
proof -
  have "response_marker_strategy loads lines marker first \<noteq> Inl e" for marker first
    using extract_loop_object [OF assms, of lines "[]"]
    by (auto simp: response_marker_strategy_def extract_json_after_marker_def Let_def
        split: sum.splits option.splits)
  then show ?thesis
    by (simp add: response_strategy_def generic_response_loop_no_raise)
qed

lemma first_found_None:
  assumes "\<And>k e. f k \<noteq> Inl e"
  shows "first_found f ks = Inr None \<longleftrightarrow> (\<forall>k \<in> set ks. f k = Inr None)"
proof (induction ks)
  case Nil
  then show ?case by simp
next
  case (Cons k ks)
  show ?case
  proof (cases "f k")
    case (Inl e)
    with assms show ?thesis by simp
  next
    case (Inr r)
    with Cons show ?thesis by (cases r) simp_all
  qed
qed

lemma first_found_no_raise:
  assumes "\<And>k e. f k \<noteq> Inl e"
  shows "first_found f ks \<noteq> Inl e"
proof (induction ks)
  case Nil
  then show ?case by simp
next
  case (Cons k ks)
  show ?case
  proof (cases "f k")
    case (Inl e')
    with assms show ?thesis by simp
  next
    case (Inr r)
    with Cons show ?thesis by (cases r) simp_all
  qed
qed

lemma resolve_request_failure:
  assumes "decodes_objects loads"
    and "\<forall>k \<in> set [1, 2, 3, 4, 5]. request_strategy loads lines k = Inr None"
  shows "resolve_request loads lines =
           Inl (ValueError ''Could not extract request JSON from this log.'')"
proof -
  note nr = request_strategy_no_raise [OF assms(1)]
  have "first_found (request_strategy loads lines) [1, 2, 3, 4, 5] = Inr None"
    using first_found_None [of "request_strategy loads lines" "[1, 2, 3, 4, 5]", OF nr] assms(2)
    by blast
  then show ?thesis
    unfolding resolve_request_def by (simp only: sum.case option.case)
qed

lemma resolve_request_success:
  assumes "decodes_objects loads"
    and "\<not> (\<forall>k \<in> set [1, 2, 3, 4, 5]. request_strategy loads lines k = Inr None)"
  shows "\<exists>r. resolve_request loads lines = Inr r"
proof -
  note nr = request_strategy_no_raise [OF assms(1)]
  have n: "first_found (request_strategy loads lines) [1, 2, 3, 4, 5] \<noteq> Inr None"
    using first_found_None [of "request_strategy loads lines" "[1, 2, 3, 4, 5]", OF nr] assms(2)
    by blast
  show ?thesis
  proof (cases "first_found (request_strategy loads lines) [1, 2, 3, 4, 5]")
    case (Inl e)
    with first_found_no_raise [of "request_strategy loads lines", OF nr] show ?thesis
      by blast
  next
    case (Inr r)
    with n obtain obj where "r = Some obj"
      by (cases r) auto
    with Inr show ?thesis
      unfolding resolve_request_def by (simp only: sum.case option.case) blast
  qed
qed

lemma resolve_response_failure:
  assumes "decodes_objects loads"
    and "\<forall>k \<in> set [1, 2, 3, 4, 5]. response_strategy loads lines k = Inr None"
  shows "resolve_response loads lines =
           Inl (ValueError ''Could not extract response JSON from this log.'')"
proof -
  note nr = response_strategy_no_raise [OF assms(1)]
  have "first_found (response_strategy loads lines) [1, 2, 3, 4, 5] = Inr None"
    using first_found_None [of "response_strategy loads lines" "[1, 2, 3, 4, 5]", OF nr] assms(2)
    by blast
  then show ?thesis
    unfolding resolve_response_def by (simp only: sum.case option.case)
qed

text \<open>
  C4. When every request strategy yields nothing, or every response strategy yields
  nothing, \<open>parse_log_file\<close> raises a \<open>ValueError\<close> whose message names the side that
  could not be extracted, the main program writes no report file and exits with code 1.
  (With a decoder that returns objects only, no strategy raises, so the request side
  either fails as a whole or has found a payload when the response side is tried.)
\<close>

theorem extraction_failure_exits:
  assumes "decodes_objects loads"
    and "(\<forall>k \<in> set [1, 2, 3, 4, 5]. request_strategy loads lines k = Inr None) \<or>
         (\<forall>k \<in> set [1, 2, 3, 4, 5]. response_strategy loads lines k = Inr None)"
  shows "parse_log_file loads str_of lines =
           Inl (ValueError
             (if \<forall>k \<in> set [1, 2, 3, 4, 5]. request_strategy loads lines k = Inr None
              then ''Could not extract request JSON from this log.''
              else ''Could not extract response JSON from this log.'')) \<and>
         main_process loads str_of generate_report lines =
           \<lparr>report_written = None, exit_code = 1\<rparr>"
proof -
  let ?req = "\<forall>k \<in> set [1, 2, 3, 4, 5]. request_strategy loads lines k = Inr None"
  have p: "parse_log_file loads str_of lines =
           Inl (ValueError
             (if ?req then ''Could not extract request JSON from this log.''
              else ''Could not extract response JSON from this log.''))"
  proof (cases ?req)
    case True
    then have "resolve_request loads lines =
        Inl (ValueError ''Could not extract request JSON from this log.'')"
      by (rule resolve_request_failure [OF assms(1)])
    then show ?thesis
      by (simp only: parse_log_file_def resolve_payloads_def sum.case if_P [OF True])
  next
    case False
    then obtain r where r: "resolve_request loads lines = Inr r"
      using resolve_request_success [OF assms(1)] by blast
    from False assms(2)
    have "\<forall>k \<in> set [1, 2, 3, 4, 5]. response_strategy loads lines k = Inr None"
      by blast
    then have "resolve_response loads lines =
        Inl (ValueError ''Could not extract response JSON from this log.'')"
      by (rule resolve_response_failure [OF assms(1)])
    with r show ?thesis
      by (simp only: parse_log_file_def resolve_payloads_def sum.case if_not_P [OF False])
  qed
  then show ?thesis
    by (simp only: main_process_def sum.case simp_thms)
qed

theorem extraction_failure_exits_witness:
  \<open>decodes_objects sample_loads \<and>
   list_all (\<lambda>k. response_strategy sample_loads
        [''Converted shopify request to {"cart": {}, "destination": {}}'', ''INFO done''] k =
        Inr None) [1, 2, 3, 4, 5] \<and>
   parse_log_file sample_loads (\<lambda>v. [])
        [''Converted shopify request to {"cart": {}, "destination": {}}'', ''INFO done''] =
     Inl (ValueError ''Could not extract response JSON from this log.'') \<and>
   main_process sample_loads (\<lambda>v. []) (\<lambda>s. Inr ''report'')
        [''Converted shopify request to {"cart": {}, "destination": {}}'', ''INFO done''] =
     \<lparr>report_written = None, exit_code = 1\<rparr>\<close>
proof -
  let ?lines = \<open>[''Converted shopify request to {"cart": {}, "destination": {}}'', ''INFO done'']\<close>
  have resp: "\<forall>k \<in> set [1, 2, 3, 4, 5]. response_strategy sample_loads ?lines k = Inr None"
    by code_simp
  have req: "\<not> (\<forall>k \<in> set [1, 2, 3, 4, 5]. request_strategy sample_loads ?lines k = Inr None)"
    by code_simp
  have h: "(\<forall>k \<in> set [1, 2, 3, 4, 5]. request_strategy sample_loads ?lines k = Inr None) \<or>
           (\<forall>k \<in> set [1, 2, 3, 4, 5]. response_strategy sample_loads ?lines k = Inr None)"
    using resp by blast
  from extraction_failure_exits [OF sample_loads_objects h, of "\<lambda>v. []" "\<lambda>s. Inr ''report''"]
  have "parse_log_file sample_loads (\<lambda>v. []) ?lines =
          Inl (ValueError ''Could not extract response JSON from this log.'') \<and>
        main_process sample_loads (\<lambda>v. []) (\<lambda>s. Inr ''report'') ?lines =
          \<lparr>report_written = None, exit_code = 1\<rparr>"
    by (simp only: if_not_P [OF req])
  with resp sample_loads_objects show ?thesis
    by (simp only: list_all_iff simp_thms)
qed

end
